theory Spec2Isabelle
  imports Main "HOL-Library.Word"
begin

section \<open>The CI action runner\<close>

text \<open>
  A shallow embedding of the runner that clones a repository, reads its workflow
  configuration and runs the triggered actions, streaming build events to a backend. The
  sources hold two copies of its main file: the current one (with the invocation log, the
  periodic progress flusher and \<^verbatim>\<open>toShellToken\<close>) and an older one,
  \<^verbatim>\<open>enterprise/server/cmd/action_runner/main.go\<close>. The embedding follows the current
  copy; where a property concerns the older one too, its function is embedded beside it
  under a name that ends in \<open>_old\<close>. Go strings and byte slices are lists of 8-bit
  characters.
\<close>

subsection \<open>Errors and outcomes\<close>

text \<open>
  Go's \<^verbatim>\<open>error\<close> values. \<open>ExitError n\<close> is an \<^verbatim>\<open>*exec.ExitError\<close> whose
  \<^verbatim>\<open>ExitCode()\<close> is \<open>n\<close>; \<open>LibError\<close> is any other error a library hands back
  (shlex, gRPC, a child that could not be started); \<open>Errorf\<close> is the fresh error of
  \<^verbatim>\<open>fmt.Errorf(prefix + "%s", err)\<close>; \<open>StatusError\<close> is an error that carries a
  gRPC status code. A nil error is \<open>None\<close>.
\<close>

datatype error =
    ExitError int
  | LibError string
  | Errorf string error
  | StatusError nat string

text \<open>A call either returns a value or panics (Go's run-time panic, here an index out of range).\<close>

datatype 'a outcome = Returns 'a | Panics

subsection \<open>Workflow configuration\<close>

text \<open>
  Modelled from the spec: the types of package \<^verbatim>\<open>workflowconf\<close>, whose declarations
  are not among the sources. An Action has a name, an ordered sequence of bazel commands and
  optional triggers; Triggers has up to two sub-records, push and pull_request, each a
  sequence of branch names. A nil pointer is \<open>None\<close>.
\<close>

record PushTrigger =
  push_Branches :: "string list"

record PullRequestTrigger =
  pr_Branches :: "string list"

record Triggers =
  Push :: "PushTrigger option"
  PullRequest :: "PullRequestTrigger option"

record Action =
  Name :: string
  Triggers :: "Triggers option"
  BazelCommands :: "string list"

record BuildBuddyConfig =
  Actions :: "Action list"

subsection \<open>Trigger matching\<close>

definition pushEventName :: string where
  "pushEventName = ''push''"

definition pullRequestEventName :: string where
  "pullRequestEventName = ''pull_request''"

text \<open>The loop of \<^verbatim>\<open>matchesAnyBranch\<close>: the first equal branch returns true.\<close>

fun matchesAnyBranch :: "string list \<Rightarrow> string \<Rightarrow> bool" where
  "matchesAnyBranch [] branch = False"
| "matchesAnyBranch (b # branches) branch =
     (if b = branch then True else matchesAnyBranch branches branch)"

definition matchesPullRequest :: "Triggers \<Rightarrow> string \<Rightarrow> string \<Rightarrow> bool" where
  "matchesPullRequest t event branch =
     (case PullRequest t of
        Some prCfg \<Rightarrow>
          (if event = pullRequestEventName then matchesAnyBranch (pr_Branches prCfg) branch
           else False)
      | None \<Rightarrow> False)"

definition matchesAnyTrigger :: "Action \<Rightarrow> string \<Rightarrow> string \<Rightarrow> bool" where
  "matchesAnyTrigger action event branch =
     (case Triggers action of
        None \<Rightarrow> False
      | Some t \<Rightarrow>
          (case Push t of
             Some pushCfg \<Rightarrow>
               (if event = pushEventName then matchesAnyBranch (push_Branches pushCfg) branch
                else matchesPullRequest t event branch)
           | None \<Rightarrow> matchesPullRequest t event branch))"

subsection \<open>Shell tokens for the log\<close>

text \<open>
  \<^verbatim>\<open>shellCharsRequiringQuote\<close> is the regular expression \<^verbatim>\<open>[^\w@%+=:,./-]\<close>. In Go's
  regexp syntax \<^verbatim>\<open>\w\<close> is the class \<^verbatim>\<open>[0-9A-Za-z_]\<close>: it holds the underscore. Every
  character of the negated class's complement is ASCII, so a byte of a multi-byte rune
  always belongs to a rune that matches.
\<close>

definition alnumChars :: string where
  "alnumChars = ''ABCDEFGHIJKLMNOPQRSTUVWXYZabcdefghijklmnopqrstuvwxyz0123456789''"

definition wordChars :: string where
  "wordChars = alnumChars @ ''_''"

definition punctChars :: string where
  "punctChars = ''@%+=:,./-''"

definition requiresQuote :: "char \<Rightarrow> bool" where
  "requiresQuote c = (\<not> (c \<in> set wordChars \<or> c \<in> set punctChars))"

text \<open>\<^verbatim>\<open>MatchString\<close>: scan for the first character of the class.\<close>

fun MatchString :: "string \<Rightarrow> bool" where
  "MatchString [] = False"
| "MatchString (c # s) = (if requiresQuote c then True else MatchString s)"

text \<open>\<^verbatim>\<open>strings.ReplaceAll(s, old, new)\<close> for a one-byte \<open>old\<close>.\<close>

fun ReplaceAll :: "string \<Rightarrow> char \<Rightarrow> string \<Rightarrow> string" where
  "ReplaceAll [] old new = []"
| "ReplaceAll (c # s) old new =
     (if c = old then new @ ReplaceAll s old new else c # ReplaceAll s old new)"

definition squote :: char where
  "squote = CHR 0x27"

definition dquote :: char where
  "dquote = CHR 0x22"

text \<open>The five characters \<^verbatim>\<open>'"'"'\<close>.\<close>

definition quoteEscape :: string where
  "quoteEscape = [squote, dquote, squote, dquote, squote]"

definition toShellToken :: "string \<Rightarrow> string" where
  "toShellToken s =
     (if MatchString s then [squote] @ ReplaceAll s squote quoteEscape @ [squote] else s)"

text \<open>
  The character set as the specification words it, \<^verbatim>\<open>[A-Za-z0-9@%+=:,./-]\<close>, kept apart
  from the code's class to compare the two.
\<close>

definition specSafeChars :: string where
  "specSafeChars = alnumChars @ punctChars"

subsection \<open>Invocation links\<close>

text \<open>\<^verbatim>\<open>strings.HasSuffix(s, "/")\<close>.\<close>

definition HasSuffixSlash :: "string \<Rightarrow> bool" where
  "HasSuffixSlash s = (case rev s of [] \<Rightarrow> False | c # _ \<Rightarrow> c = CHR ''/'')"

text \<open>The flag \<^verbatim>\<open>--bes_results_url\<close> is the first argument.\<close>

definition invocationURL :: "string \<Rightarrow> string \<Rightarrow> string" where
  "invocationURL besResultsURL invocationID =
     (let urlPrefix = besResultsURL;
          urlPrefix = (if \<not> HasSuffixSlash urlPrefix then urlPrefix @ ''/'' else urlPrefix)
      in urlPrefix @ invocationID)"

text \<open>
  The specification's words, apart from the code: the number of slashes a string ends in,
  and the string without them.
\<close>

definition trailingSlashes :: "string \<Rightarrow> nat" where
  "trailingSlashes s = length (takeWhile (\<lambda>c. c = CHR ''/'') (rev s))"

definition withoutTrailingSlashes :: "string \<Rightarrow> string" where
  "withoutTrailingSlashes s = rev (dropWhile (\<lambda>c. c = CHR ''/'') (rev s))"

subsection \<open>Bazel command lines\<close>

text \<open>
  \<^verbatim>\<open>shlex.Split\<close> belongs to a library outside the repository: it is a parameter, a
  function from the command string to the pair Go returns (the tokens and an error).
  \<^verbatim>\<open>tokens[0]\<close> on an empty slice panics.
\<close>

type_synonym splitter = "string \<Rightarrow> string list \<times> error option"

definition bazelArgs :: "splitter \<Rightarrow> string \<Rightarrow> (string list \<times> error option) outcome" where
  "bazelArgs tokenise cmd =
     (case tokenise cmd of
        (tokens, Some err) \<Rightarrow> Returns ([], Some err)
      | (tokens, None) \<Rightarrow>
          (case tokens of
             [] \<Rightarrow> Panics
           | t0 # rest \<Rightarrow>
               (if t0 = ''bazel'' \<or> t0 = ''bazelisk'' then Returns (rest, None)
                else Returns (tokens, None))))"

text \<open>
  A splitter for examples: it cuts at blanks, as \<^verbatim>\<open>shlex.Split\<close> does on a command with
  no quote, escape or comment character.
\<close>

fun splitBlanks :: "string \<Rightarrow> string \<Rightarrow> string list" where
  "splitBlanks [] w = (if w = [] then [] else [w])"
| "splitBlanks (c # s) w =
     (if c = CHR '' '' then (if w = [] then splitBlanks s [] else w # splitBlanks s [])
      else splitBlanks s (w @ [c]))"

definition blankSplitter :: splitter where
  "blankSplitter cmd = (splitBlanks cmd [], None)"

subsection \<open>Build events\<close>

text \<open>
  The build events the runner emits and the envelope that carries one on the wire. Go's
  \<^verbatim>\<open>int32\<close> and \<^verbatim>\<open>int64\<close> are words: \<open>+\<close> wraps.
\<close>

datatype BuildEventId =
    StartedId
  | ProgressId "32 word"
  | WorkspaceStatusId
  | BuildFinishedId
  | BuildToolLogsId

datatype Payload =
    Started string int
  | Progress string
  | WorkspaceStatus "(string \<times> string) list"
  | Finished "32 word" int
  | BuildToolLogs "(string \<times> string) list"

record BuildEvent =
  Id :: BuildEventId
  Children :: "BuildEventId list"
  Payload :: Payload
  LastMessage :: bool

record StreamId =
  InvocationId :: string
  BuildId :: string

datatype WireEvent =
    BazelEvent string
  | ComponentStreamFinished

record OrderedBuildEvent =
  StreamId :: StreamId
  SequenceNumber :: "64 word"
  EventTime :: "int option"
  Event :: WireEvent

subsection \<open>The publisher, seen from the runner\<close>

text \<open>
  \<open>events\<close> is everything sent to the channel, oldest first; the sentinel (a nil event)
  is \<open>None\<close>. \<open>err\<close> is the latched error. Two ghost fields stand for the background
  tasks: \<open>latches\<close> lists, for each later \<^verbatim>\<open>Publish\<close> or \<^verbatim>\<open>Wait\<close> of the runner in
  turn, the error a background task has latched with \<^verbatim>\<open>setError\<close> since the call before
  (\<open>None\<close> for no new error; an exhausted list means none ever), and \<open>doneSignal\<close> tells
  whether the publisher task ever sends on the done channel. The channel's capacity is
  not modelled: a send that blocks until the publisher task drains the channel is a send.
\<close>

record buildEventPublisher =
  streamID :: StreamId
  events :: "BuildEvent option list"
  err :: "error option"
  latches :: "error option list"
  doneSignal :: bool

definition newBuildEventPublisher ::
  "StreamId \<Rightarrow> error option list \<Rightarrow> bool \<Rightarrow> buildEventPublisher" where
  "newBuildEventPublisher sid ls d =
     \<lparr>streamID = sid, events = [], err = None, latches = ls, doneSignal = d\<rparr>"

text \<open>What the background tasks did to \<open>err\<close> since the runner last looked.\<close>

definition observe :: "buildEventPublisher \<Rightarrow> buildEventPublisher" where
  "observe p =
     (case latches p of
        [] \<Rightarrow> p
      | None # ls \<Rightarrow> p\<lparr>latches := ls\<rparr>
      | Some e # ls \<Rightarrow> p\<lparr>err := Some e, latches := ls\<rparr>)"

definition Publish :: "BuildEvent \<Rightarrow> buildEventPublisher \<Rightarrow> error option \<times> buildEventPublisher" where
  "Publish e p0 =
     (let p = observe p0 in
      case err p of
        Some prev \<Rightarrow> (Some (Errorf ''cannot publish event due to previous error: '' prev), p)
      | None \<Rightarrow> (None, p\<lparr>events := events p @ [Some e]\<rparr>))"

text \<open>
  \<^verbatim>\<open>Wait\<close> sends the sentinel and receives from the done channel; when the publisher
  task never signals, it never returns (\<open>None\<close>).
\<close>

definition Wait :: "buildEventPublisher \<Rightarrow> error option option \<times> buildEventPublisher" where
  "Wait p0 =
     (let p1 = p0\<lparr>events := events p0 @ [None]\<rparr> in
      if doneSignal p1 then (let p = observe p1 in (Some (err p), p)) else (None, p1))"



text \<open>A publisher with no error latched and none to come.\<close>

definition healthy :: "buildEventPublisher \<Rightarrow> bool" where
  "healthy p = (err p = None \<and> list_all (\<lambda>l. l = None) (latches p))"

subsection \<open>The invocation log\<close>

text \<open>
  The log's \<^verbatim>\<open>bytes.Buffer\<close> with its storage. \<open>arrays\<close> is the memory of byte arrays
  by address (an array's length is its capacity) and \<open>allocated\<close> the next free address;
  \<open>bufArray\<close> is the array behind \<^verbatim>\<open>Buffer.buf\<close> (\<open>None\<close> for the nil slice of a new
  buffer) and \<open>bufLen\<close> its length. Nothing reads from the buffer, so its read offset stays
  0. \<open>capacityFor\<close> is the capacity the library picks for a new array, from the old capacity
  and the number of bytes to add; it is raised to what the content needs. \<open>stderr\<close> collects
  what was handed to \<^verbatim>\<open>os.Stderr\<close>.

  The listener is one of the two closures the program ever stores there: the empty one of
  \<^verbatim>\<open>newInvocationLog\<close> and the threshold flush that \<^verbatim>\<open>Run\<close> installs. Calling it
  is left to the owner of the log (see \<open>logWrite\<close>), since the second closure works on the
  action runner.
\<close>

datatype writeListener = NoListener | ThresholdFlush

record invocationLog =
  writeListener :: writeListener
  arrays :: "nat \<Rightarrow> string"
  allocated :: nat
  bufArray :: "nat option"
  bufLen :: nat
  capacityFor :: "nat \<Rightarrow> nat \<Rightarrow> nat"
  stderr :: string

text \<open>A byte slice that starts at the head of its array: the array and the length.\<close>

type_synonym slice = "nat option \<times> nat"

text \<open>The bytes a slice holds now; \<^verbatim>\<open>string(buf)\<close> copies them.\<close>

definition sliceBytes :: "invocationLog \<Rightarrow> slice \<Rightarrow> string" where
  "sliceBytes l s = (case fst s of None \<Rightarrow> [] | Some a \<Rightarrow> take (snd s) (arrays l a))"

text \<open>
  The capacities of \<^verbatim>\<open>Buffer.grow\<close>: 64 bytes for the first small write, otherwise
  twice the old capacity and the bytes to add.
\<close>

definition goCapacity :: "nat \<Rightarrow> nat \<Rightarrow> nat" where
  "goCapacity c n = (if c = 0 \<and> n \<le> 64 then 64 else 2 * c + n)"

definition newInvocationLog :: invocationLog where
  "newInvocationLog =
     \<lparr>writeListener = NoListener, arrays = (\<lambda>a. []), allocated = 0, bufArray = None,
      bufLen = 0, capacityFor = goCapacity, stderr = []\<rparr>"

definition bufStorage :: "invocationLog \<Rightarrow> string" where
  "bufStorage l = (case bufArray l of None \<Rightarrow> [] | Some a \<Rightarrow> arrays l a)"

text \<open>\<^verbatim>\<open>Buffer.Bytes\<close>, \<^verbatim>\<open>Buffer.Len\<close> and \<^verbatim>\<open>Buffer.Reset\<close>: the slice itself, no copy; its length; the length set to 0, the storage kept.\<close>

definition BufferBytes :: "invocationLog \<Rightarrow> slice" where
  "BufferBytes l = (bufArray l, bufLen l)"

definition BufferLen :: "invocationLog \<Rightarrow> nat" where
  "BufferLen l = bufLen l"

definition BufferReset :: "invocationLog \<Rightarrow> invocationLog" where
  "BufferReset l = l\<lparr>bufLen := 0\<rparr>"

text \<open>
  \<^verbatim>\<open>Buffer.Write\<close>: when the bytes fit the capacity they are copied into the array in
  place, after the content; otherwise content and bytes go to a new array.
\<close>

definition BufferWrite :: "string \<Rightarrow> invocationLog \<Rightarrow> invocationLog" where
  "BufferWrite p l =
     (let n = length p; m = bufLen l; old = bufStorage l; c = length old
      in if n \<le> c - m
         then (case bufArray l of
                 None \<Rightarrow> l
               | Some a \<Rightarrow>
                   l\<lparr>arrays := (arrays l)(a := take m old @ p @ drop (m + n) old), bufLen := m + n\<rparr>)
         else
           (let c' = max (capacityFor l c n) (m + n); a' = allocated l
            in l\<lparr>arrays := (arrays l)(a' := take m old @ p @ replicate (c' - (m + n)) (CHR 0x00)),
                 allocated := Suc a', bufArray := Some a', bufLen := m + n\<rparr>))"

text \<open>
  \<^verbatim>\<open>Write\<close> up to the call of the listener: the append under the lock, then the copy to
  standard error. \<^verbatim>\<open>Buffer.Write\<close> returns the length and a nil error.
\<close>

definition Write :: "string \<Rightarrow> invocationLog \<Rightarrow> (nat \<times> error option) \<times> invocationLog" where
  "Write b l = ((length b, None), (BufferWrite b l)\<lparr>stderr := stderr l @ b\<rparr>)"

text \<open>
  \<^verbatim>\<open>Consume\<close>: the slice of \<^verbatim>\<open>Buffer.Bytes()\<close> (converting a byte slice to a byte
  slice copies nothing), and the buffer reset. The slice goes on sharing the buffer's
  array.
\<close>

definition Consume :: "invocationLog \<Rightarrow> slice \<times> invocationLog" where
  "Consume l = (let b = BufferBytes l in (b, BufferReset l))"

text \<open>
  The storage is in order: the array behind the buffer has been allocated and holds the
  content.
\<close>

definition wellFormed :: "invocationLog \<Rightarrow> bool" where
  "wellFormed l =
     (case bufArray l of
        None \<Rightarrow> bufLen l = 0
      | Some a \<Rightarrow> a < allocated l \<and> bufLen l \<le> length (arrays l a))"

text \<open>The content of the buffer: the bytes of the slice \<^verbatim>\<open>Buffer.Bytes()\<close>.\<close>

definition contents :: "invocationLog \<Rightarrow> string" where
  "contents l = sliceBytes l (BufferBytes l)"

subsection \<open>The world of one action\<close>

text \<open>
  Constants of the program, the command-line flags, and what the run of one action reads
  from outside: the tokeniser, two renderings of package \<^verbatim>\<open>fmt\<close> (\<^verbatim>\<open>%q\<close> of a
  string, and a format printed with no operand, which is the format itself unless it holds
  a \<^verbatim>\<open>%\<close>), the clock, and the child processes. The child of the \<open>i\<close>-th command (from 0)
  with arguments \<open>args\<close> is \<open>child i args\<close>: what happens while it runs, in order (a chunk
  of its output written to the log, or a tick of the periodic flusher), and the error of
  \<^verbatim>\<open>cmd.Run()\<close>.
\<close>

definition noExitCode :: int where
  "noExitCode = - 1"

definition progressFlushThresholdBytes :: nat where
  "progressFlushThresholdBytes = 1000"

record flags =
  besBackend :: string
  besResultsURL :: string
  repoURL :: string
  commitSHA :: string
  triggerEvent :: string
  triggerBranch :: string

datatype happening = Output string | Tick

record childRun =
  happenings :: "happening list"
  result :: "error option"

record env =
  flagValues :: flags
  split :: splitter
  quoteGo :: "string \<Rightarrow> string"
  fmtNoArgs :: "string \<Rightarrow> string"
  startTimeMillis :: int
  finishTimeMillis :: int
  elapsedTime :: string
  child :: "nat \<Rightarrow> string list \<Rightarrow> childRun"

subsection \<open>Rendering\<close>

fun showNat :: "nat \<Rightarrow> string" where
  "showNat n = (if n < 10 then [char_of (48 + n)] else showNat (n div 10) @ [char_of (48 + n mod 10)])"

declare showNat.simps [simp del]

definition showInt :: "int \<Rightarrow> string" where
  "showInt i = (if i < 0 then ''-'' @ showNat (nat (- i)) else showNat (nat i))"

text \<open>\<^verbatim>\<open>err.Error()\<close>.\<close>

fun errorText :: "error \<Rightarrow> string" where
  "errorText (ExitError n) = ''exit status '' @ showInt n"
| "errorText (LibError m) = m"
| "errorText (Errorf prefix e) = prefix @ errorText e"
| "errorText (StatusError c m) = ''rpc error: code = '' @ showNat c @ '' desc = '' @ m"

definition esc :: string where
  "esc = [CHR 0x1B]"

definition newline :: string where
  "newline = [CHR 0x0A]"

subsection \<open>The action runner\<close>

text \<open>
  \<open>stopSent\<close> is a ghost field: whether the stop function of the periodic flusher has put
  its signal on the stop channel.
\<close>

record actionRunner =
  action :: Action
  log :: invocationLog
  bep :: buildEventPublisher
  progressCount :: "32 word"
  username :: string
  hostname :: string
  stopSent :: bool

definition progressEvent :: "32 word \<Rightarrow> string \<Rightarrow> BuildEvent" where
  "progressEvent count output =
     \<lparr>Id = ProgressId count, Children = [ProgressId (count + 1)],
      Payload = Progress output, LastMessage = False\<rparr>"

definition flushProgress :: "actionRunner \<Rightarrow> error option \<times> actionRunner" where
  "flushProgress r0 =
     (let (buf, l) = Consume (log r0);
          r1 = r0\<lparr>log := l\<rparr>
      in if snd buf = 0 then (None, r1)
         else
           let count = progressCount r1;
               r2 = r1\<lparr>progressCount := progressCount r1 + 1\<rparr>;
               output = sliceBytes (log r2) buf;
               (e, p) = Publish (progressEvent count output) (bep r2)
           in (e, r2\<lparr>bep := p\<rparr>))"

text \<open>
  A write to the runner's log: \<^verbatim>\<open>invocationLog.Write\<close>, then the listener. The
  listener that \<^verbatim>\<open>Run\<close> installs flushes once the buffer holds the threshold and
  ignores the error of the flush.
\<close>

definition logWrite :: "string \<Rightarrow> actionRunner \<Rightarrow> actionRunner" where
  "logWrite b r0 =
     (let r1 = r0\<lparr>log := snd (Write b (log r0))\<rparr>
      in case writeListener (log r1) of
           NoListener \<Rightarrow> r1
         | ThresholdFlush \<Rightarrow>
             (if BufferLen (log r1) \<ge> progressFlushThresholdBytes
              then snd (flushProgress r1) else r1))"

text \<open>\<^verbatim>\<open>Printf\<close> with the format already filled in: the text and a newline.\<close>

definition logPrintf :: "string \<Rightarrow> actionRunner \<Rightarrow> actionRunner" where
  "logPrintf text r = logWrite (text @ newline) r"

text \<open>
  \<^verbatim>\<open>flushProgress\<close> on one task while another task writes to the log: \<^verbatim>\<open>Consume\<close>
  has returned and released the lock, the writes \<open>bs\<close> of the other task (the copy of a
  child's output, say) take place, and only then does \<^verbatim>\<open>string(buf)\<close> copy the
  slice. With no write in between it is \<open>flushProgress\<close>.
\<close>

definition flushProgressDuring :: "string list \<Rightarrow> actionRunner \<Rightarrow> error option \<times> actionRunner" where
  "flushProgressDuring bs r0 =
     (let (buf, l) = Consume (log r0);
          r1 = foldl (\<lambda>r b. logWrite b r) (r0\<lparr>log := l\<rparr>) bs
      in if snd buf = 0 then (None, r1)
         else
           let count = progressCount r1;
               r2 = r1\<lparr>progressCount := progressCount r1 + 1\<rparr>;
               output = sliceBytes (log r2) buf;
               (e, p) = Publish (progressEvent count output) (bep r2)
           in (e, r2\<lparr>bep := p\<rparr>))"

definition getExitCode :: "error option \<Rightarrow> int" where
  "getExitCode e =
     (case e of
        None \<Rightarrow> 0
      | Some (ExitError n) \<Rightarrow> n
      | Some _ \<Rightarrow> noExitCode)"

definition printCommandLine :: "env \<Rightarrow> string list \<Rightarrow> actionRunner \<Rightarrow> actionRunner" where
  "printCommandLine w args r =
     (let ps1End = (if username r = ''root'' then ''#'' else ''$'');
          command = foldl (\<lambda>c arg. c @ '' '' @ toShellToken arg) ''bazelisk'' args;
          userAtHost = username r @ ''@'' @ hostname r
      in logPrintf
           (fmtNoArgs w (newline @ esc @ ''[36m'' @ userAtHost @ esc @ ''[0m'' @ ps1End @ '' '' @ command))
           r)"

text \<open>
  \<^verbatim>\<open>runCommand\<close> with the log as the sink: the child's output reaches the log chunk by
  chunk, and the periodic flusher ticks in between (it ignores the error of its flush).
\<close>

fun whileRunning :: "happening list \<Rightarrow> actionRunner \<Rightarrow> actionRunner" where
  "whileRunning [] r = r"
| "whileRunning (Output b # hs) r = whileRunning hs (logWrite b r)"
| "whileRunning (Tick # hs) r = whileRunning hs (snd (flushProgress r))"

definition runCommand :: "childRun \<Rightarrow> actionRunner \<Rightarrow> error option \<times> actionRunner" where
  "runCommand c r = (result c, whileRunning (happenings c) r)"

text \<open>
  One turn of the loop of \<^verbatim>\<open>Run\<close> from the printed command line to the line with
  the exit code: the error of the command, and the runner then.
\<close>

definition commandStep :: "env \<Rightarrow> nat \<Rightarrow> string list \<Rightarrow> actionRunner \<Rightarrow> error option \<times> actionRunner" where
  "commandStep w i args r =
     (let r1 = printCommandLine w args r;
          (e, r2) = runCommand (child w i args) r1;
          exitCode = getExitCode e
      in (e, if exitCode \<noteq> noExitCode
             then logPrintf (esc @ ''[90m(command exited with code '' @ showInt exitCode
                               @ '')'' @ esc @ ''[0m'') r2
             else r2))"

text \<open>
  The loop over the bazel commands of \<^verbatim>\<open>Run\<close>, from the \<open>i\<close>-th command on. It ends with
  what \<^verbatim>\<open>Run\<close> returns, or with the panic of \<^verbatim>\<open>bazelArgs\<close>.
\<close>

fun runCommands ::
  "env \<Rightarrow> nat \<Rightarrow> string list \<Rightarrow> actionRunner \<Rightarrow> error option outcome \<times> actionRunner" where
  "runCommands w i [] r = (Returns None, r)"
| "runCommands w i (bazelCmd # cmds) r =
     (case bazelArgs (split w) bazelCmd of
        Panics \<Rightarrow> (Panics, r)
      | Returns (args, Some e) \<Rightarrow> (Returns (Some (Errorf ''failed to parse bazel command: '' e)), r)
      | Returns (args, None) \<Rightarrow>
          (let (e, r3) = commandStep w i args r;
               (ferr, r4) = flushProgress r3
           in if ferr \<noteq> None then (Returns None, r4)
              else if e \<noteq> None then (Returns e, r4)
              else runCommands w (Suc i) cmds r4))"

definition startedEvent :: "env \<Rightarrow> actionRunner \<Rightarrow> BuildEvent" where
  "startedEvent w r =
     \<lparr>Id = StartedId,
      Children = [ProgressId 0, WorkspaceStatusId, BuildFinishedId],
      Payload = Started (InvocationId (streamID (bep r))) (startTimeMillis w),
      LastMessage = False\<rparr>"

definition workspaceStatusEvent :: "env \<Rightarrow> actionRunner \<Rightarrow> BuildEvent" where
  "workspaceStatusEvent w r =
     \<lparr>Id = WorkspaceStatusId,
      Children = [],
      Payload = WorkspaceStatus
        [(''BUILD_USER'', username r),
         (''BUILD_HOST'', hostname r),
         (''REPO_URL'', repoURL (flagValues w)),
         (''COMMIT_SHA'', commitSHA (flagValues w)),
         (''GIT_TREE_STATUS'', ''Clean'')],
      LastMessage = False\<rparr>"

text \<open>The four lines \<^verbatim>\<open>Run\<close> prints first.\<close>

definition logHeader :: "env \<Rightarrow> actionRunner \<Rightarrow> actionRunner" where
  "logHeader w r0 =
     (let r1 = logPrintf (''Action:          '' @ Name (action r0)) r0;
          r2 = logPrintf (''Triggered by:    '' @ triggerEvent (flagValues w) @ '' to branch ''
                            @ quoteGo w (triggerBranch (flagValues w))) r1;
          r3 = logPrintf (''Invocation ID:   '' @ InvocationId (streamID (bep r2))) r2
      in logPrintf (''Invocation URL:  ''
                      @ invocationURL (besResultsURL (flagValues w)) (InvocationId (streamID (bep r3)))) r3)"

definition publish :: "BuildEvent \<Rightarrow> actionRunner \<Rightarrow> error option \<times> actionRunner" where
  "publish e r = (let (er, p) = Publish e (bep r) in (er, r\<lparr>bep := p\<rparr>))"

text \<open>
  \<^verbatim>\<open>startBackgroundProgressFlush\<close> as \<^verbatim>\<open>Run\<close> sees it: a fresh stop channel, and a
  stop function that sends on it. The task it spawns is \<open>flusherTask\<close> below; its ticks while
  a command runs are the \<open>Tick\<close>s of the child.
\<close>

definition startBackgroundProgressFlush :: "actionRunner \<Rightarrow> actionRunner" where
  "startBackgroundProgressFlush r = r\<lparr>stopSent := False\<rparr>"

definition stopFlushingProgress :: "actionRunner \<Rightarrow> actionRunner" where
  "stopFlushingProgress r = r\<lparr>stopSent := True\<rparr>"

definition Run :: "env \<Rightarrow> actionRunner \<Rightarrow> error option outcome \<times> actionRunner" where
  "Run w r0 =
     (let r1 = logHeader w r0;
          (e1, r2) = publish (startedEvent w r1) r1
      in if e1 \<noteq> None then (Returns None, r2)
         else
           let (e2, r3) = flushProgress r2
           in if e2 \<noteq> None then (Returns None, r3)
              else
                let (e3, r4) = publish (workspaceStatusEvent w r3) r3
                in if e3 \<noteq> None then (Returns None, r4)
                   else
                     let r5 = r4\<lparr>log := (log r4)\<lparr>writeListener := ThresholdFlush\<rparr>\<rparr>;
                         r6 = startBackgroundProgressFlush r5;
                         (res, r7) = runCommands w 0 (BazelCommands (action r6)) r6
                     in (res, stopFlushingProgress r7))"

text \<open>
  Two views of \<^verbatim>\<open>Run\<close> for stating where it stands. \<open>loopStart\<close> is the runner with
  which \<^verbatim>\<open>Run\<close> enters its loop, when the three calls it checks before the loop returned
  nil. \<open>loopHead w i cmds r\<close> is the runner at the head of the loop once the commands
  \<open>cmds\<close>, run from \<open>r\<close> as the \<open>i\<close>-th and following, have all succeeded with their flush,
  so that the loop goes on to the command after them.
\<close>

definition loopStart :: "env \<Rightarrow> actionRunner \<Rightarrow> actionRunner option" where
  "loopStart w r0 =
     (let r1 = logHeader w r0;
          (e1, r2) = publish (startedEvent w r1) r1
      in if e1 \<noteq> None then None
         else
           let (e2, r3) = flushProgress r2
           in if e2 \<noteq> None then None
              else
                let (e3, r4) = publish (workspaceStatusEvent w r3) r3
                in if e3 \<noteq> None then None
                   else Some (startBackgroundProgressFlush
                                (r4\<lparr>log := (log r4)\<lparr>writeListener := ThresholdFlush\<rparr>\<rparr>)))"

fun loopHead :: "env \<Rightarrow> nat \<Rightarrow> string list \<Rightarrow> actionRunner \<Rightarrow> actionRunner option" where
  "loopHead w i [] r = Some r"
| "loopHead w i (bazelCmd # cmds) r =
     (case bazelArgs (split w) bazelCmd of
        Returns (args, None) \<Rightarrow>
          (let (e, r3) = commandStep w i args r;
               (ferr, r4) = flushProgress r3
           in if ferr = None \<and> e = None then loopHead w (Suc i) cmds r4 else None)
      | _ \<Rightarrow> None)"

subsection \<open>The periodic flusher task\<close>

text \<open>
  The task spawned by \<^verbatim>\<open>startBackgroundProgressFlush\<close> is a \<^verbatim>\<open>for\<close> around a
  \<^verbatim>\<open>select\<close>; each turn of the loop one of the two cases is taken. The argument lists
  which, turn by turn. The \<^verbatim>\<open>break\<close> of the stop case is inside the \<^verbatim>\<open>select\<close>: it
  ends the \<^verbatim>\<open>select\<close> statement, and the \<^verbatim>\<open>for\<close> goes on to its next turn. When
  the list is used up the task is blocked in the \<^verbatim>\<open>select\<close>. The result also counts the
  calls of \<^verbatim>\<open>flushProgress\<close>.
\<close>

datatype wake = StopReceived | TimerFired

datatype taskEnd = Exited | Blocked

fun flusherTask :: "wake list \<Rightarrow> actionRunner \<Rightarrow> nat \<Rightarrow> taskEnd \<times> nat \<times> actionRunner" where
  "flusherTask [] r n = (Blocked, n, r)"
| "flusherTask (StopReceived # ws) r n = flusherTask ws r n"
| "flusherTask (TimerFired # ws) r n = flusherTask ws (snd (flushProgress r)) (Suc n)"

subsection \<open>The publisher task\<close>

text \<open>
  What the task \<^verbatim>\<open>buildEventPublisher.run\<close> meets: the results of dialling and of
  opening the stream, of marshalling an event, of the \<^verbatim>\<open>Send\<close> of the envelope with a
  given sequence number, of \<^verbatim>\<open>CloseSend\<close>, the clock, and what the \<^verbatim>\<open>Recv\<close> calls of
  the ack receiver return, in order.
\<close>

datatype recv = Ack | RecvEOF | RecvError error

record besStream =
  dialError :: "error option"
  openError :: "error option"
  marshalAny :: "BuildEvent \<Rightarrow> string \<times> error option"
  sendError :: "64 word \<Rightarrow> error option"
  closeSendError :: "error option"
  timestampNow :: "64 word \<Rightarrow> int"
  recvs :: "recv list"

text \<open>
  The ack receiver: it loops on \<^verbatim>\<open>Recv\<close> until an error, latches any error but the
  end of the stream and signals on \<^verbatim>\<open>doneReceiving\<close>. The result is the error it latched
  and whether it signalled; with no error to come it stays in \<^verbatim>\<open>Recv\<close>.
\<close>

fun ackReceiver :: "recv list \<Rightarrow> error option \<times> bool" where
  "ackReceiver [] = (None, False)"
| "ackReceiver (Ack # rs) = ackReceiver rs"
| "ackReceiver (RecvEOF # rs) = (None, True)"
| "ackReceiver (RecvError e # rs) = (Some e, True)"

text \<open>
  The steps of the publisher task, in the order it takes them. \<open>Send\<close> carries the error
  the call returned; \<open>AwaitAcks\<close> is the receive from \<^verbatim>\<open>doneReceiving\<close> completing;
  \<open>SignalDone\<close> is the deferred send on the done channel.
\<close>

datatype step =
    Dial
  | OpenStream
  | Send OrderedBuildEvent "error option"
  | SetError error
  | CloseSend
  | AwaitAcks
  | CloseConn
  | SignalDone

text \<open>How the \<^verbatim>\<open>for\<close> loop ends: by \<^verbatim>\<open>break\<close>, by \<^verbatim>\<open>return\<close>, or never, blocked on the empty channel.\<close>

datatype loopEnd = Break | Return | Starved

definition finishedEnvelope :: "besStream \<Rightarrow> StreamId \<Rightarrow> 64 word \<Rightarrow> OrderedBuildEvent" where
  "finishedEnvelope s sid seqNo =
     \<lparr>StreamId = sid, SequenceNumber = seqNo, EventTime = Some (timestampNow s seqNo),
      Event = ComponentStreamFinished\<rparr>"

definition eventEnvelope :: "besStream \<Rightarrow> StreamId \<Rightarrow> 64 word \<Rightarrow> string \<Rightarrow> OrderedBuildEvent" where
  "eventEnvelope s sid seqNo bazelEvent =
     \<lparr>StreamId = sid, SequenceNumber = seqNo, EventTime = Some (timestampNow s seqNo),
      Event = BazelEvent bazelEvent\<rparr>"

fun sendLoop :: "besStream \<Rightarrow> StreamId \<Rightarrow> 64 word \<Rightarrow> BuildEvent option list \<Rightarrow> step list \<times> loopEnd" where
  "sendLoop s sid seqNo [] = ([], Starved)"
| "sendLoop s sid seqNo (None # q) =
     (case sendError s seqNo of
        Some e \<Rightarrow> ([Send (finishedEnvelope s sid seqNo) (Some e), SetError e], Return)
      | None \<Rightarrow> ([Send (finishedEnvelope s sid seqNo) None], Break))"
| "sendLoop s sid seqNo (Some event # q) =
     (case marshalAny s event of
        (bazelEvent, Some e) \<Rightarrow> ([SetError (Errorf ''failed to marshal bazel event: '' e)], Return)
      | (bazelEvent, None) \<Rightarrow>
          (case sendError s seqNo of
             Some e \<Rightarrow> ([Send (eventEnvelope s sid seqNo bazelEvent) (Some e), SetError e], Return)
           | None \<Rightarrow>
               (let (steps, end) = sendLoop s sid (seqNo + 1) q
                in (Send (eventEnvelope s sid seqNo bazelEvent) None # steps, end))))"

text \<open>
  Modelled from the spec: \<^verbatim>\<open>status.WrapError\<close>, \<^verbatim>\<open>status.UnavailableErrorf\<close> and
  \<^verbatim>\<open>status.UnavailableError\<close> of the repository's package \<^verbatim>\<open>status\<close>, which is not
  among the sources. A wrapped error is the cause under a message; an unavailable error
  is a transient failure, an error with gRPC's status code for unavailable (14).
\<close>

definition WrapError :: "error \<Rightarrow> string \<Rightarrow> error" where
  "WrapError e msg = Errorf (msg @ '': '') e"

definition UnavailableError :: "string \<Rightarrow> error" where
  "UnavailableError msg = StatusError 14 msg"

text \<open>
  The task: the steps it takes on the channel content \<open>q\<close>, and whether it ends. The
  deferred calls run at every return, the close of the connection before the signal on the
  done channel.
\<close>

definition run :: "besStream \<Rightarrow> StreamId \<Rightarrow> BuildEvent option list \<Rightarrow> step list \<times> taskEnd" where
  "run s sid q =
     (case dialError s of
        Some e \<Rightarrow> ([Dial, SetError (WrapError e ''error dialing bes_backend''), SignalDone], Exited)
      | None \<Rightarrow>
          (case openError s of
             Some e \<Rightarrow>
               ([Dial, OpenStream, SetError (WrapError e ''error opening build event stream''),
                 CloseConn, SignalDone], Exited)
           | None \<Rightarrow>
               (let (steps, end) = sendLoop s sid 1 q
                in case end of
                     Starved \<Rightarrow> ([Dial, OpenStream] @ steps, Blocked)
                   | Return \<Rightarrow> ([Dial, OpenStream] @ steps @ [CloseConn, SignalDone], Exited)
                   | Break \<Rightarrow>
                       (case closeSendError s of
                          Some e \<Rightarrow>
                            ([Dial, OpenStream] @ steps
                               @ [CloseSend, SetError (Errorf ''failed to close build event stream: '' e),
                                  CloseConn, SignalDone], Exited)
                        | None \<Rightarrow>
                            (if snd (ackReceiver (recvs s))
                             then ([Dial, OpenStream] @ steps @ [CloseSend, AwaitAcks, CloseConn, SignalDone],
                                   Exited)
                             else ([Dial, OpenStream] @ steps @ [CloseSend], Blocked))))))"


subsubsection \<open>The older copy of the task\<close>

text \<open>
  \<^verbatim>\<open>enterprise/server/cmd/action_runner/main.go\<close> holds the task as it was before: its bazel events carry
  no event time, a marshalling or dialling error is latched under \<^verbatim>\<open>fmt.Errorf\<close> or as
  it is, and the branch of the sentinel ends in \<^verbatim>\<open>return\<close>, so its loop has no
  \<^verbatim>\<open>break\<close> at all and the statements after the loop are never reached.
\<close>

definition eventEnvelope_old :: "StreamId \<Rightarrow> 64 word \<Rightarrow> string \<Rightarrow> OrderedBuildEvent" where
  "eventEnvelope_old sid seqNo bazelEvent =
     \<lparr>StreamId = sid, SequenceNumber = seqNo, EventTime = None, Event = BazelEvent bazelEvent\<rparr>"

fun sendLoop_old :: "besStream \<Rightarrow> StreamId \<Rightarrow> 64 word \<Rightarrow> BuildEvent option list \<Rightarrow> step list \<times> loopEnd" where
  "sendLoop_old s sid seqNo [] = ([], Starved)"
| "sendLoop_old s sid seqNo (None # q) =
     (case sendError s seqNo of
        Some e \<Rightarrow> ([Send (finishedEnvelope s sid seqNo) (Some e), SetError e], Return)
      | None \<Rightarrow> ([Send (finishedEnvelope s sid seqNo) None], Return))"
| "sendLoop_old s sid seqNo (Some event # q) =
     (case marshalAny s event of
        (bazelEvent, Some e) \<Rightarrow> ([SetError e], Return)
      | (bazelEvent, None) \<Rightarrow>
          (case sendError s seqNo of
             Some e \<Rightarrow> ([Send (eventEnvelope_old sid seqNo bazelEvent) (Some e), SetError e], Return)
           | None \<Rightarrow>
               (let (steps, end) = sendLoop_old s sid (seqNo + 1) q
                in (Send (eventEnvelope_old sid seqNo bazelEvent) None # steps, end))))"

definition run_old :: "besStream \<Rightarrow> StreamId \<Rightarrow> BuildEvent option list \<Rightarrow> step list \<times> taskEnd" where
  "run_old s sid q =
     (case dialError s of
        Some e \<Rightarrow> ([Dial, SetError (Errorf ''error dialing bes_backend: '' e), SignalDone], Exited)
      | None \<Rightarrow>
          (case openError s of
             Some e \<Rightarrow>
               ([Dial, OpenStream, SetError (Errorf ''error opening build event stream: '' e),
                 CloseConn, SignalDone], Exited)
           | None \<Rightarrow>
               (let (steps, end) = sendLoop_old s sid 1 q
                in case end of
                     Starved \<Rightarrow> ([Dial, OpenStream] @ steps, Blocked)
                   | Return \<Rightarrow> ([Dial, OpenStream] @ steps @ [CloseConn, SignalDone], Exited)
                   | Break \<Rightarrow>
                       (case closeSendError s of
                          Some e \<Rightarrow>
                            ([Dial, OpenStream] @ steps
                               @ [CloseSend, SetError (Errorf ''failed to close build event stream: '' e),
                                  CloseConn, SignalDone], Exited)
                        | None \<Rightarrow>
                            (if snd (ackReceiver (recvs s))
                             then ([Dial, OpenStream] @ steps @ [CloseSend, AwaitAcks, CloseConn, SignalDone],
                                   Exited)
                             else ([Dial, OpenStream] @ steps @ [CloseSend], Blocked))))))"

subsection \<open>The driver\<close>

text \<open>
  What the whole process reads from outside: the flags, the results of \<^verbatim>\<open>cloneRepo\<close>,
  \<^verbatim>\<open>readConfig\<close>, \<^verbatim>\<open>os.Hostname\<close> and \<^verbatim>\<open>user.Current\<close>, and for the \<open>i\<close>-th
  action of the configuration (from 0) the world of its run, the two identifiers
  \<^verbatim>\<open>newUUID\<close> makes (\<open>None\<close> when the generator fails), the background of its
  publisher (see \<open>buildEventPublisher\<close>) and the ticks the periodic flusher, which goes on
  after \<^verbatim>\<open>Run\<close> has returned, takes before the driver's own flush.
\<close>

record world =
  flagsGiven :: flags
  cloneResult :: "error option"
  configResult :: "BuildBuddyConfig \<times> error option"
  hostnameResult :: "string \<times> error option"
  userResult :: "string \<times> error option"
  actionEnv :: "nat \<Rightarrow> env"
  uuids :: "nat \<Rightarrow> string option \<times> string option"
  backgroundLatches :: "nat \<Rightarrow> error option list"
  backgroundDone :: "nat \<Rightarrow> bool"
  lateTicks :: "nat \<Rightarrow> nat"

text \<open>How the process ends: with an exit status, or never.\<close>

datatype processEnd = Exit int | Hangs

text \<open>
  \<^verbatim>\<open>gstatus.Code\<close> of gRPC: the code of an error that carries a status, and
  \<^verbatim>\<open>Unknown\<close> (2) for any other error.
\<close>

definition gstatusCode :: "error \<Rightarrow> nat" where
  "gstatusCode e = (case e of StatusError c m \<Rightarrow> c | _ \<Rightarrow> 2)"

definition fatal :: "error \<Rightarrow> processEnd" where
  "fatal e = Exit (int (gstatusCode e))"

definition buildFinishedEvent :: "env \<Rightarrow> int \<Rightarrow> BuildEvent" where
  "buildFinishedEvent w exitCode =
     \<lparr>Id = BuildFinishedId, Children = [BuildToolLogsId],
      Payload = Finished (word_of_int exitCode) (finishTimeMillis w), LastMessage = False\<rparr>"

definition buildToolLogsEvent :: "env \<Rightarrow> BuildEvent" where
  "buildToolLogsEvent w =
     \<lparr>Id = BuildToolLogsId, Children = [],
      Payload = BuildToolLogs [(''elapsed time'', elapsedTime w)], LastMessage = True\<rparr>"

text \<open>
  The body of the loop of \<^verbatim>\<open>RunAllActions\<close> for an action whose trigger matched, once
  its publisher is made and started. \<open>None\<close> is the end of the body, on to the next action;
  \<open>Some\<close> is the end of the process: a panic ends it with Go's status 2.
\<close>

definition runTriggered ::
  "env \<Rightarrow> nat \<Rightarrow> actionRunner \<Rightarrow> processEnd option \<times> actionRunner" where
  "runTriggered w ticks r0 =
     (case Run w r0 of
        (Panics, r1) \<Rightarrow> (Some (Exit 2), r1)
      | (Returns res, r1) \<Rightarrow>
          (let (exitCode, r2) =
                 (case res of
                    None \<Rightarrow> (0, r1)
                  | Some e \<Rightarrow>
                      (let r = logPrintf
                                 (fmtNoArgs w (esc @ ''[31m'' @ newline @ ''Action failed: ''
                                                 @ errorText e @ esc @ ''[0m'')) r1;
                           c = getExitCode (Some e)
                       in (if c = noExitCode then 1 else c, r)));
               r3 = snd (snd (flusherTask (replicate ticks TimerFired) r2 0));
               r4 = snd (flushProgress r3);
               r5 = snd (publish (buildFinishedEvent w exitCode) r4);
               r6 = snd (publish (buildToolLogsEvent w) r5);
               (waited, p) = Wait (bep r6);
               r7 = r6\<lparr>bep := p\<rparr>
           in case waited of
                None \<Rightarrow> (Some Hangs, r7)
              | Some (Some e) \<Rightarrow>
                  (Some (fatal (UnavailableError
                     (''failed to publish build event for action '' @ quoteGo w (Name (action r7))
                        @ '': '' @ errorText e))), r7)
              | Some None \<Rightarrow> (None, r7)))"

text \<open>
  The loop of \<^verbatim>\<open>RunAllActions\<close> from the \<open>i\<close>-th action on; the second result lists the
  runners of the actions that ran, in order. When the loop ends \<^verbatim>\<open>main\<close> returns, and
  the process ends with status 0.
\<close>

fun runActions ::
  "world \<Rightarrow> string \<Rightarrow> string \<Rightarrow> nat \<Rightarrow> Action list \<Rightarrow> processEnd \<times> actionRunner list" where
  "runActions v host user i [] = (Exit 0, [])"
| "runActions v host user i (a # as) =
     (if \<not> matchesAnyTrigger a (triggerEvent (flagsGiven v)) (triggerBranch (flagsGiven v))
      then runActions v host user (Suc i) as
      else
        case uuids v i of
          (None, u2) \<Rightarrow> (fatal (UnavailableError ''failed to generate UUID''), [])
        | (Some u1, None) \<Rightarrow> (fatal (UnavailableError ''failed to generate UUID''), [])
        | (Some u1, Some u2) \<Rightarrow>
            (let p = newBuildEventPublisher \<lparr>InvocationId = u1, BuildId = u2\<rparr>
                       (backgroundLatches v i) (backgroundDone v i);
                 r = \<lparr>action = a, log = newInvocationLog, bep = p, progressCount = 0,
                      username = user, hostname = host, stopSent = False\<rparr>;
                 (ended, r1) = runTriggered ((actionEnv v i)\<lparr>flagValues := flagsGiven v\<rparr>) (lateTicks v i) r
             in case ended of
                  Some pe \<Rightarrow> (pe, [r1])
                | None \<Rightarrow> (let (pe, rs) = runActions v host user (Suc i) as in (pe, r1 # rs))))"

definition RunAllActions :: "world \<Rightarrow> BuildBuddyConfig \<Rightarrow> processEnd \<times> actionRunner list" where
  "RunAllActions v cfg =
     (let host = (case hostnameResult v of (h, None) \<Rightarrow> h | (h, Some e) \<Rightarrow> []);
          user = (case userResult v of (u, None) \<Rightarrow> u | (u, Some e) \<Rightarrow> [])
      in runActions v host user 0 (Actions cfg))"

definition main :: "world \<Rightarrow> processEnd \<times> actionRunner list" where
  "main v =
     (case cloneResult v of
        Some e \<Rightarrow> (fatal e, [])
      | None \<Rightarrow>
          (case configResult v of
             (cfg, Some e) \<Rightarrow> (Exit 1, [])
           | (cfg, None) \<Rightarrow> RunAllActions v cfg))"

subsection \<open>Scenarios\<close>

text \<open>
  The scenario of a failing command: one action \<open>test\<close>, triggered by a push to
  \<open>main\<close>, whose only command is \<^verbatim>\<open>bazel build //:nonexistent\<close>; the child prints a
  line and exits with status 1; the backend accepts every event, acknowledges the stream and
  closes it.
\<close>

definition pushMain :: Triggers where
  "pushMain = \<lparr>Push = Some \<lparr>push_Branches = [''main'']\<rparr>, PullRequest = None\<rparr>"

definition testAction :: Action where
  "testAction =
     \<lparr>Name = ''test'', Triggers = Some pushMain, BazelCommands = [''bazel build //:nonexistent'']\<rparr>"

definition pushFlags :: flags where
  "pushFlags =
     \<lparr>besBackend = ''grpc://localhost:1985'', besResultsURL = ''http://localhost:8080/invocation'',
      repoURL = ''https://x/y'', commitSHA = ''abc123'', triggerEvent = ''push'',
      triggerBranch = ''main''\<rparr>"

definition failingChild :: childRun where
  "failingChild = \<lparr>happenings = [Output ''ERROR: no such target'', Tick], result = Some (ExitError 1)\<rparr>"

definition failingEnv :: env where
  "failingEnv =
     \<lparr>flagValues = pushFlags, split = blankSplitter,
      quoteGo = (\<lambda>s. [dquote] @ s @ [dquote]), fmtNoArgs = (\<lambda>s. s),
      startTimeMillis = 1000, finishTimeMillis = 2000, elapsedTime = ''1.000000'',
      child = (\<lambda>i args. failingChild)\<rparr>"

definition failingWorld :: world where
  "failingWorld =
     \<lparr>flagsGiven = pushFlags, cloneResult = None,
      configResult = (\<lparr>Actions = [testAction]\<rparr>, None),
      hostnameResult = (''host'', None), userResult = (''user'', None),
      actionEnv = (\<lambda>i. failingEnv),
      uuids = (\<lambda>i. (Some ''inv-1'', Some ''build-1'')),
      backgroundLatches = (\<lambda>i. []), backgroundDone = (\<lambda>i. True),
      lateTicks = (\<lambda>i. 1)\<rparr>"

definition goodStream :: besStream where
  "goodStream =
     \<lparr>dialError = None, openError = None, marshalAny = (\<lambda>e. (''any'', None)),
      sendError = (\<lambda>n. None), closeSendError = None, timestampNow = (\<lambda>n. 0),
      recvs = [Ack, Ack, RecvEOF]\<rparr>"

text \<open>Actions with other triggers, and one with none.\<close>

definition pullRequestAction :: Action where
  "pullRequestAction =
     \<lparr>Name = ''check'',
      Triggers = Some \<lparr>Push = None, PullRequest = Some \<lparr>pr_Branches = [''main'', ''dev'']\<rparr>\<rparr>,
      BazelCommands = [''bazel test //...'']\<rparr>"

definition untriggeredAction :: Action where
  "untriggeredAction = \<lparr>Name = ''idle'', Triggers = None, BazelCommands = [''bazel version'']\<rparr>"

text \<open>
  A stream identifier, two events, a backend that answers nothing yet, one whose
  \<^verbatim>\<open>CloseSend\<close> fails, and a runner whose log holds a line when its flusher has been
  told to stop.
\<close>

definition exampleStream :: StreamId where
  "exampleStream = \<lparr>InvocationId = ''inv-1'', BuildId = ''build-1''\<rparr>"

definition exampleEvents :: "BuildEvent list" where
  "exampleEvents = [buildFinishedEvent failingEnv 1, buildToolLogsEvent failingEnv]"

definition silentStream :: besStream where
  "silentStream = goodStream\<lparr>recvs := []\<rparr>"

definition stoppedRunner :: actionRunner where
  "stoppedRunner =
     \<lparr>action = testAction, log = snd (Write ''Action failed'' newInvocationLog),
      bep = newBuildEventPublisher exampleStream [] True, progressCount = 0,
      username = ''user'', hostname = ''host'', stopSent = True\<rparr>"

definition freshRunner :: "error option list \<Rightarrow> actionRunner" where
  "freshRunner ls =
     \<lparr>action = testAction, log = newInvocationLog,
      bep = newBuildEventPublisher exampleStream ls True, progressCount = 0,
      username = ''user'', hostname = ''host'', stopSent = False\<rparr>"




text \<open>
  A child that prints \<open>n\<close> bytes in one piece and exits with status 1, and the world of
  the failing command with that child; a runner whose log holds four bytes.
\<close>

definition chattyChild :: "nat \<Rightarrow> childRun" where
  "chattyChild n = \<lparr>happenings = [Output (replicate n (CHR ''x''))], result = Some (ExitError 1)\<rparr>"

definition chattyEnv :: "nat \<Rightarrow> env" where
  "chattyEnv n = failingEnv\<lparr>child := (\<lambda>i args. chattyChild n)\<rparr>"

definition writtenRunner :: actionRunner where
  "writtenRunner = (freshRunner [])\<lparr>log := snd (Write ''AAAA'' newInvocationLog)\<rparr>"

subsection \<open>A run with a healthy publisher\<close>

text \<open>
  \<open>carriesOn r r'\<close>: from \<open>r\<close> to \<open>r'\<close> the runner kept its action, its publisher is still
  healthy, and the channel has gained events only (no sentinel).
\<close>

definition carriesOn :: "actionRunner \<Rightarrow> actionRunner \<Rightarrow> bool" where
  "carriesOn r r' =
     (healthy (bep r') \<and> doneSignal (bep r') = doneSignal (bep r) \<and> action r' = action r \<and>
      (\<exists>evs. events (bep r') = events (bep r) @ map Some evs))"

text \<open>The exit code the driver puts into the finished event, from what \<^verbatim>\<open>Run\<close> returned.\<close>

definition reportedCode :: "error option \<Rightarrow> int" where
  "reportedCode res =
     (case res of None \<Rightarrow> 0
      | Some e \<Rightarrow> (if getExitCode (Some e) = noExitCode then 1 else getExitCode (Some e)))"

section \<open>Properties\<close>

subsection \<open>Trigger matching\<close>

lemma matchesAnyBranch_iff: "matchesAnyBranch bs b = (b \<in> set bs)"
  by (induction bs) auto

text \<open>
  C5. \<^verbatim>\<open>matchesAnyTrigger\<close> is false for an action with nil triggers; for the event
  \<open>push\<close> with a push trigger present it is membership of the branch in the push branches;
  for the event \<open>pull_request\<close> with a pull-request trigger present it is membership in the
  pull-request branches; in every other case, and for any other event name, it is false.
\<close>

theorem matchesAnyTrigger_contract:
  "(Triggers a = None \<longrightarrow> matchesAnyTrigger a event branch = False) \<and>
   (\<forall>t p. Triggers a = Some t \<longrightarrow> Push t = Some p \<longrightarrow> event = ''push'' \<longrightarrow>
      matchesAnyTrigger a event branch = (branch \<in> set (push_Branches p))) \<and>
   (\<forall>t p. Triggers a = Some t \<longrightarrow> PullRequest t = Some p \<longrightarrow> event = ''pull_request'' \<longrightarrow>
      matchesAnyTrigger a event branch = (branch \<in> set (pr_Branches p))) \<and>
   (\<forall>t. Triggers a = Some t \<longrightarrow> \<not> (event = ''push'' \<and> Push t \<noteq> None) \<longrightarrow>
      \<not> (event = ''pull_request'' \<and> PullRequest t \<noteq> None) \<longrightarrow>
      matchesAnyTrigger a event branch = False) \<and>
   (event \<noteq> ''push'' \<longrightarrow> event \<noteq> ''pull_request'' \<longrightarrow> matchesAnyTrigger a event branch = False)"
  by (auto simp: matchesAnyTrigger_def matchesPullRequest_def pushEventName_def
      pullRequestEventName_def matchesAnyBranch_iff split: option.splits)

theorem matchesAnyTrigger_contract_witness:
  "Triggers untriggeredAction = None \<and>
   matchesAnyTrigger untriggeredAction ''push'' ''main'' = False \<and>
   Triggers testAction = Some pushMain \<and>
   Push pushMain = Some \<lparr>push_Branches = [''main'']\<rparr> \<and>
   matchesAnyTrigger testAction ''push'' ''main'' = (''main'' \<in> set [''main'']) \<and>
   matchesAnyTrigger testAction ''push'' ''dev'' = (''dev'' \<in> set [''main'']) \<and>
   matchesAnyTrigger pullRequestAction ''pull_request'' ''dev'' = (''dev'' \<in> set [''main'', ''dev'']) \<and>
   matchesAnyTrigger testAction ''pull_request'' ''main'' = False \<and>
   matchesAnyTrigger testAction ''tag'' ''main'' = False"
  using matchesAnyTrigger_contract [of untriggeredAction "''push''" "''main''"]
    matchesAnyTrigger_contract [of testAction "''push''" "''main''"]
    matchesAnyTrigger_contract [of testAction "''push''" "''dev''"]
    matchesAnyTrigger_contract [of pullRequestAction "''pull_request''" "''dev''"]
    matchesAnyTrigger_contract [of testAction "''pull_request''" "''main''"]
    matchesAnyTrigger_contract [of testAction "''tag''" "''main''"]
  by (simp add: untriggeredAction_def testAction_def pullRequestAction_def pushMain_def)

subsection \<open>Shell tokens\<close>

lemma MatchString_iff: "MatchString s = (\<exists>c \<in> set s. requiresQuote c)"
  by (induction s) auto

lemma requiresQuote_iff: "requiresQuote c = (c \<notin> set specSafeChars \<and> c \<noteq> CHR ''_'')"
  by (auto simp: requiresQuote_def wordChars_def specSafeChars_def)

lemma ReplaceAll_concat:
  "ReplaceAll s old new = concat (map (\<lambda>c. if c = old then new else [c]) s)"
  by (induction s) auto

text \<open>
  C6, as the code has it. A token made only of characters of \<^verbatim>\<open>[A-Za-z0-9_@%+=:,./-]\<close>
  (the underscore is among them, since \<^verbatim>\<open>\w\<close> holds it) is returned unchanged; any other
  token is returned between single quotes, each single quote in it replaced by the five
  characters \<^verbatim>\<open>'"'"'\<close>.
\<close>

theorem toShellToken_contract:
  "(set s \<subseteq> set specSafeChars \<union> {CHR ''_''} \<longrightarrow> toShellToken s = s) \<and>
   (\<not> set s \<subseteq> set specSafeChars \<union> {CHR ''_''} \<longrightarrow>
      toShellToken s =
        [squote] @ concat (map (\<lambda>c. if c = squote then quoteEscape else [c]) s) @ [squote])"
  by (auto simp: toShellToken_def MatchString_iff requiresQuote_iff ReplaceAll_concat)

theorem toShellToken_contract_witness:
  "set ''//foo:bar_baz'' \<subseteq> set specSafeChars \<union> {CHR ''_''} \<and>
   toShellToken ''//foo:bar_baz'' = ''//foo:bar_baz'' \<and>
   \<not> set [CHR ''a'', squote, CHR '' '', CHR ''b''] \<subseteq> set specSafeChars \<union> {CHR ''_''} \<and>
   toShellToken [CHR ''a'', squote, CHR '' '', CHR ''b''] =
     [squote, CHR ''a'', squote, dquote, squote, dquote, squote, CHR '' '', CHR ''b'', squote]"
  using toShellToken_contract [of "''//foo:bar_baz''"]
    toShellToken_contract [of "[CHR ''a'', squote, CHR '' '', CHR ''b'']"]
  by (simp add: specSafeChars_def alnumChars_def punctChars_def squote_def dquote_def
      quoteEscape_def)

text \<open>
  The claim as the specification words it, with the class \<^verbatim>\<open>[A-Za-z0-9@%+=:,./-]\<close>, fails
  at the token \<^verbatim>\<open>a_b\<close>: the underscore is outside that class, and the token comes back
  unquoted.
\<close>

theorem toShellToken_counterexample:
  "\<not> (\<forall>s. (set s \<subseteq> set specSafeChars \<longrightarrow> toShellToken s = s) \<and>
          (\<not> set s \<subseteq> set specSafeChars \<longrightarrow>
             toShellToken s =
               [squote] @ concat (map (\<lambda>c. if c = squote then quoteEscape else [c]) s) @ [squote]))"
proof
  assume a: "\<forall>s. (set s \<subseteq> set specSafeChars \<longrightarrow> toShellToken s = s) \<and>
          (\<not> set s \<subseteq> set specSafeChars \<longrightarrow>
             toShellToken s =
               [squote] @ concat (map (\<lambda>c. if c = squote then quoteEscape else [c]) s) @ [squote])"
  have n: "\<not> set ''a_b'' \<subseteq> set specSafeChars"
    by (simp add: specSafeChars_def alnumChars_def punctChars_def)
  have v: "toShellToken ''a_b'' = ''a_b''"
    by (simp add: toShellToken_def requiresQuote_def wordChars_def alnumChars_def punctChars_def)
  from a n have "toShellToken ''a_b'' =
      [squote] @ concat (map (\<lambda>c. if c = squote then quoteEscape else [c]) ''a_b'') @ [squote]"
    by blast
  with v show False by (simp add: squote_def)
qed

subsection \<open>Invocation links\<close>

lemma takeWhile_eq_replicate:
  "takeWhile (\<lambda>c. c = x) xs = replicate (length (takeWhile (\<lambda>c. c = x) xs)) x"
  by (induction xs) auto

lemma split_trailingSlashes:
  "p = withoutTrailingSlashes p @ replicate (trailingSlashes p) (CHR ''/'')"
proof -
  have "rev p = takeWhile (\<lambda>c. c = CHR ''/'') (rev p) @ dropWhile (\<lambda>c. c = CHR ''/'') (rev p)"
    by simp
  also have "\<dots> = replicate (trailingSlashes p) (CHR ''/'') @ dropWhile (\<lambda>c. c = CHR ''/'') (rev p)"
    using takeWhile_eq_replicate [of "CHR ''/''" "rev p"] by (simp add: trailingSlashes_def)
  finally have "rev (rev p) =
      rev (replicate (trailingSlashes p) (CHR ''/'') @ dropWhile (\<lambda>c. c = CHR ''/'') (rev p))"
    by simp
  then show ?thesis by (simp add: withoutTrailingSlashes_def)
qed

lemma HasSuffixSlash_trailingSlashes: "HasSuffixSlash p = (0 < trailingSlashes p)"
  by (cases "rev p") (auto simp: HasSuffixSlash_def trailingSlashes_def)

lemma withoutTrailingSlashes_end:
  "withoutTrailingSlashes p = [] \<or> last (withoutTrailingSlashes p) \<noteq> CHR ''/''"
proof (cases "dropWhile (\<lambda>c. c = CHR ''/'') (rev p)")
  case Nil
  then show ?thesis by (simp add: withoutTrailingSlashes_def)
next
  case (Cons c cs)
  then have "c \<noteq> CHR ''/''" using hd_dropWhile [of "\<lambda>c. c = CHR ''/''" "rev p"] by auto
  with Cons show ?thesis by (simp add: withoutTrailingSlashes_def)
qed

text \<open>
  C9, as the code has it. Every prefix is a stem that does not end in a slash, followed by
  the \<open>k\<close> slashes the prefix ends in. The invocation URL is that stem, then \<open>k\<close> slashes
  when the prefix ends in any and one slash when it ends in none, then the identifier. So
  there is exactly one slash between the stem and the identifier when the prefix ends in at
  most one slash; a prefix that ends in several keeps them all.
\<close>

theorem invocationURL_slashes:
  "invocationURL p i =
     withoutTrailingSlashes p @ replicate (max 1 (trailingSlashes p)) (CHR ''/'') @ i \<and>
   (trailingSlashes p \<le> 1 \<longrightarrow> invocationURL p i = withoutTrailingSlashes p @ ''/'' @ i) \<and>
   p = withoutTrailingSlashes p @ replicate (trailingSlashes p) (CHR ''/'') \<and>
   (withoutTrailingSlashes p = [] \<or> last (withoutTrailingSlashes p) \<noteq> CHR ''/'')"
proof -
  note s = split_trailingSlashes [of p]
  have main: "invocationURL p i =
     withoutTrailingSlashes p @ replicate (max 1 (trailingSlashes p)) (CHR ''/'') @ i"
  proof (cases "trailingSlashes p = 0")
    case True
    then have "\<not> HasSuffixSlash p" by (simp add: HasSuffixSlash_trailingSlashes)
    moreover have "p = withoutTrailingSlashes p" using s True by simp
    ultimately show ?thesis using True by (simp add: invocationURL_def)
  next
    case False
    then have "HasSuffixSlash p" by (simp add: HasSuffixSlash_trailingSlashes)
    moreover have "max 1 (trailingSlashes p) = trailingSlashes p" using False by simp
    ultimately show ?thesis using s by (simp add: invocationURL_def)
  qed
  have one: "trailingSlashes p \<le> 1 \<longrightarrow> invocationURL p i = withoutTrailingSlashes p @ ''/'' @ i"
  proof
    assume "trailingSlashes p \<le> 1"
    then have "max 1 (trailingSlashes p) = 1" by simp
    with main show "invocationURL p i = withoutTrailingSlashes p @ ''/'' @ i" by simp
  qed
  from main one s withoutTrailingSlashes_end [of p] show ?thesis by blast
qed

theorem invocationURL_slashes_witness:
  "trailingSlashes ''http://bb/invocation'' = 0 \<and>
   invocationURL ''http://bb/invocation'' ''inv-1'' = ''http://bb/invocation/inv-1'' \<and>
   trailingSlashes ''http://bb/invocation/'' = 1 \<and>
   invocationURL ''http://bb/invocation/'' ''inv-1'' = ''http://bb/invocation/inv-1''"
  using invocationURL_slashes [of "''http://bb/invocation''" "''inv-1''"]
    invocationURL_slashes [of "''http://bb/invocation/''" "''inv-1''"]
  by (simp add: trailingSlashes_def withoutTrailingSlashes_def)

text \<open>
  The claim that there is always exactly one slash between the prefix and the identifier
  fails for a prefix that ends in two slashes: the function adds none and removes none, and
  the URL has two slashes between \<^verbatim>\<open>http://bb\<close> and the identifier.
\<close>

theorem invocationURL_counterexample:
  "trailingSlashes ''http://bb//'' = 2 \<and>
   withoutTrailingSlashes ''http://bb//'' = ''http://bb'' \<and>
   invocationURL ''http://bb//'' ''inv-1'' = ''http://bb//inv-1'' \<and>
   invocationURL ''http://bb//'' ''inv-1'' \<noteq> ''http://bb'' @ ''/'' @ ''inv-1''"
  by (simp add: trailingSlashes_def withoutTrailingSlashes_def invocationURL_def HasSuffixSlash_def)

subsection \<open>Bazel command lines\<close>

text \<open>
  C10. \<^verbatim>\<open>bazelArgs\<close> reads the first token with no guard. Whenever the tokeniser gives
  at least one token and no error, the read is in bounds and the tokens are returned with no
  error, without the first when it is \<open>bazel\<close> or \<open>bazelisk\<close>. When the tokeniser gives no
  token and no error (an empty or blank command) the read panics. An error of the
  tokeniser is returned before the read.
\<close>

theorem bazelArgs_first_token:
  "(\<forall>t ts. tokenise cmd = (t # ts, None) \<longrightarrow>
      bazelArgs tokenise cmd =
        Returns (if t = ''bazel'' \<or> t = ''bazelisk'' then ts else t # ts, None)) \<and>
   (tokenise cmd = ([], None) \<longrightarrow> bazelArgs tokenise cmd = Panics) \<and>
   (\<forall>ts e. tokenise cmd = (ts, Some e) \<longrightarrow> bazelArgs tokenise cmd = Returns ([], Some e))"
  by (auto simp: bazelArgs_def)

theorem bazelArgs_first_token_witness:
  "blankSplitter ''bazel build //...'' = ([''bazel'', ''build'', ''//...''], None) \<and>
   bazelArgs blankSplitter ''bazel build //...'' = Returns ([''build'', ''//...''], None) \<and>
   blankSplitter ''   '' = ([], None) \<and>
   bazelArgs blankSplitter ''   '' = Panics \<and>
   bazelArgs (\<lambda>c. ([], Some (LibError ''EOF found when expecting closing quote''))) ''bazel 'x'' =
     Returns ([], Some (LibError ''EOF found when expecting closing quote''))"
  using bazelArgs_first_token [of blankSplitter "''bazel build //...''"]
    bazelArgs_first_token [of blankSplitter "''   ''"]
    bazelArgs_first_token
      [of "\<lambda>c. ([], Some (LibError ''EOF found when expecting closing quote''))" "''bazel 'x''"]
  by (simp add: blankSplitter_def)

subsection \<open>The invocation log\<close>

lemma contents_alt: "contents l = take (bufLen l) (bufStorage l)"
  by (simp add: contents_def sliceBytes_def BufferBytes_def bufStorage_def split: option.splits)

lemma BufferWrite_wellFormed: "wellFormed l \<Longrightarrow> wellFormed (BufferWrite p l)"
  by (auto simp: wellFormed_def BufferWrite_def bufStorage_def Let_def split: option.splits)

lemma BufferWrite_contents:
  "wellFormed l \<Longrightarrow> contents (BufferWrite p l) = contents l @ p"
  by (auto simp: contents_alt wellFormed_def BufferWrite_def bufStorage_def Let_def
      split: option.splits)

lemma Write_wellFormed: "wellFormed l \<Longrightarrow> wellFormed (snd (Write p l))"
  using BufferWrite_wellFormed [of l p] by (simp add: Write_def wellFormed_def split: option.splits)

lemma Write_contents: "wellFormed l \<Longrightarrow> contents (snd (Write p l)) = contents l @ p"
  using BufferWrite_contents [of l p]
  by (simp add: Write_def contents_alt bufStorage_def split: option.splits)

lemma Consume_wellFormed: "wellFormed l \<Longrightarrow> wellFormed (snd (Consume l))"
  by (auto simp: Consume_def BufferReset_def wellFormed_def split: option.splits)

lemma Consume_bytes: "sliceBytes (snd (Consume l)) (fst (Consume l)) = contents l"
  by (simp add: Consume_def BufferReset_def contents_def sliceBytes_def BufferBytes_def
      split: option.splits)

lemma Consume_contents: "contents (snd (Consume l)) = []"
  by (simp add: Consume_def BufferReset_def contents_alt)

lemma newInvocationLog_wellFormed: "wellFormed newInvocationLog"
  by (simp add: wellFormed_def newInvocationLog_def)

lemma flushProgressDuring_Nil: "flushProgressDuring [] r = flushProgress r"
  by (simp add: flushProgressDuring_def flushProgress_def)

text \<open>
  C7, against the code. \<^verbatim>\<open>Consume\<close> returns the slice of \<^verbatim>\<open>Buffer.Bytes()\<close>, which
  shares the buffer's array, and \<^verbatim>\<open>Reset\<close> keeps that array for the next \<^verbatim>\<open>Write\<close>. The
  lock is released when \<^verbatim>\<open>Consume\<close> returns, and \<^verbatim>\<open>flushProgress\<close> copies the slice with
  \<^verbatim>\<open>string(buf)\<close> only after that. A \<^verbatim>\<open>Write\<close> of another task in between lands in the
  bytes not yet copied. The log holds \<^verbatim>\<open>AAAA\<close>: the slice that \<^verbatim>\<open>Consume\<close> returns reads
  \<^verbatim>\<open>AAAA\<close> then, and \<^verbatim>\<open>BBAA\<close> after \<^verbatim>\<open>BB\<close> is written. A flush during which \<^verbatim>\<open>BB\<close>
  is written publishes \<^verbatim>\<open>BBAA\<close>, and the next flush publishes \<^verbatim>\<open>BB\<close>: two of the bytes
  written before the first \<^verbatim>\<open>Consume\<close> are lost, and two bytes written after it are in
  the output of two \<^verbatim>\<open>Consume\<close> calls. With no write in between, the flush publishes
  \<^verbatim>\<open>AAAA\<close>.
\<close>

theorem flushProgress_copies_overwritten_slice:
  "contents (log writtenRunner) = ''AAAA'' \<and>
   sliceBytes (snd (Consume (log writtenRunner))) (fst (Consume (log writtenRunner))) = ''AAAA'' \<and>
   sliceBytes (snd (Write ''BB'' (snd (Consume (log writtenRunner)))))
     (fst (Consume (log writtenRunner))) = ''BBAA'' \<and>
   events (bep (snd (flushProgressDuring [] writtenRunner))) = [Some (progressEvent 0 ''AAAA'')] \<and>
   events (bep (snd (flushProgressDuring [''BB''] writtenRunner))) =
     [Some (progressEvent 0 ''BBAA'')] \<and>
   events (bep (snd (flushProgress (snd (flushProgressDuring [''BB''] writtenRunner))))) =
     [Some (progressEvent 0 ''BBAA''), Some (progressEvent 1 ''BB'')]"
  by code_simp

subsection \<open>The periodic flusher\<close>

lemma flusherTask_never_exits: "fst (flusherTask ws r n) = Blocked"
proof (induction ws arbitrary: r n)
  case Nil
  then show ?case by simp
next
  case (Cons w ws)
  then show ?case by (cases w) simp_all
qed

text \<open>
  C4 asks that the flusher task, once it has received the stop signal, flushes no more and
  ends. The task does neither: after the stop signal the next tick of its timer flushes the
  log (here the line the driver wrote after \<^verbatim>\<open>Run\<close> had returned), and the task is
  back in its \<^verbatim>\<open>select\<close>.
\<close>

theorem flusherTask_flushes_after_stop:
  "flusherTask [StopReceived, TimerFired] stoppedRunner 0 =
     (Blocked, 1, snd (flushProgress stoppedRunner)) \<and>
   events (bep (snd (flushProgress stoppedRunner))) = [Some (progressEvent 0 ''Action failed'')]"
  by (simp add: stoppedRunner_def flushProgress_def Consume_def BufferBytes_def BufferReset_def
      Write_def BufferWrite_def newInvocationLog_def bufStorage_def goCapacity_def sliceBytes_def
      Publish_def observe_def newBuildEventPublisher_def Let_def)

subsection \<open>The publisher\<close>


lemma observe_events [simp]: "events (observe p) = events p"
  by (auto simp: observe_def split: list.splits option.splits)




lemma observe_doneSignal [simp]: "doneSignal (observe p) = doneSignal p"
  by (auto simp: observe_def split: list.splits option.splits)

lemma observe_healthy: "healthy p \<Longrightarrow> healthy (observe p) \<and> err (observe p) = None"
  by (auto simp: healthy_def observe_def split: list.splits option.splits)

lemma Publish_healthy:
  assumes "healthy p"
  shows "fst (Publish e p) = None" and "healthy (snd (Publish e p))"
    and "events (snd (Publish e p)) = events p @ [Some e]"
    and "doneSignal (snd (Publish e p)) = doneSignal p"
  using observe_healthy [OF assms]
  by (simp_all add: Publish_def Let_def healthy_def)










subsection \<open>The closing handshake\<close>

lemma sendLoop_old_no_break: "snd (sendLoop_old s sid n q) \<noteq> Break"
proof (induction q arbitrary: n)
  case Nil
  then show ?case by simp
next
  case (Cons a q)
  show ?case
  proof (cases a)
    case None
    then show ?thesis by (simp split: option.splits)
  next
    case (Some ev)
    with Cons.IH [of "n + 1"] show ?thesis
      by (auto split: option.splits prod.splits)
  qed
qed

lemma sendLoop_old_steps:
  "x \<in> set (fst (sendLoop_old s sid n q)) \<Longrightarrow> x \<noteq> CloseSend \<and> x \<noteq> AwaitAcks"
  by (induction s sid n q rule: sendLoop_old.induct) (auto split: option.splits prod.splits)

lemma run_old_never_awaits_acks:
  "AwaitAcks \<notin> set (fst (run_old s sid q)) \<and> CloseSend \<notin> set (fst (run_old s sid q))"
proof -
  obtain steps e where l: "sendLoop_old s sid 1 q = (steps, e)"
    by (cases "sendLoop_old s sid 1 q")
  have e: "e \<noteq> Break" using sendLoop_old_no_break [of s sid 1 q] l by simp
  have s: "CloseSend \<notin> set steps \<and> AwaitAcks \<notin> set steps"
    using sendLoop_old_steps [of _ s sid 1 q] l by auto
  show ?thesis
    using l e s by (cases e) (auto simp: run_old_def split: option.splits)
qed

text \<open>
  C3 asks that the task, after the finished envelope is sent, half-closes the stream and
  waits for the ack receiver before it signals on the done channel. The older copy of the
  task does not: with every send successful and a backend that has not answered yet (the ack
  receiver is still in \<^verbatim>\<open>Recv\<close>), it sends the finished envelope and signals at once,
  with no half-close and no wait.
\<close>

theorem run_old_signals_done_without_acks:
  "run_old silentStream exampleStream (map Some exampleEvents @ [None]) =
     ([Dial, OpenStream,
       Send (eventEnvelope_old exampleStream 1 ''any'') None,
       Send (eventEnvelope_old exampleStream 2 ''any'') None,
       Send (finishedEnvelope silentStream exampleStream 3) None,
       CloseConn, SignalDone], Exited) \<and>
   ackReceiver (recvs silentStream) = (None, False)"
  by (simp add: run_old_def silentStream_def goodStream_def exampleEvents_def)

text \<open>
  The task of the current copy does wait. When its loop ends by \<^verbatim>\<open>break\<close> (the
  finished envelope was sent) and \<^verbatim>\<open>CloseSend\<close> returns no error, it signals only after
  the ack receiver has, and stays blocked when the ack receiver never does; and whenever it
  signals with no error latched by itself, the wait for the acks came before.
\<close>

lemma sendLoop_steps:
  "x \<in> set (fst (sendLoop s sid n q)) \<Longrightarrow> (\<exists>e r. x = Send e r) \<or> (\<exists>e. x = SetError e)"
  by (induction s sid n q rule: sendLoop.induct) (auto split: option.splits prod.splits)

lemma sendLoop_break:
  "snd (sendLoop s sid n q) = Break \<Longrightarrow>
   (\<exists>pre k. fst (sendLoop s sid n q) = pre @ [Send (finishedEnvelope s sid k) None]) \<and>
   (\<forall>e. SetError e \<notin> set (fst (sendLoop s sid n q)))"
proof (induction s sid n q rule: sendLoop.induct)
  case (1 s sid seqNo)
  then show ?case by simp
next
  case (2 s sid seqNo q)
  then show ?case by (auto split: option.splits)
next
  case (3 s sid seqNo event q)
  then show ?case
    by (auto split: option.splits prod.splits simp: Cons_eq_append_conv)
qed

lemma sendLoop_no_break:
  "snd (sendLoop s sid n q) = Return \<Longrightarrow> (\<exists>e. SetError e \<in> set (fst (sendLoop s sid n q)))"
  by (induction s sid n q rule: sendLoop.induct) (auto split: option.splits prod.splits)

lemma run_awaits_acks:
  assumes "dialError s = None" and "openError s = None"
    and "sendLoop s sid 1 q = (steps, Break)" and "closeSendError s = None"
  shows "run s sid q =
     (if snd (ackReceiver (recvs s))
      then ([Dial, OpenStream] @ steps @ [CloseSend, AwaitAcks, CloseConn, SignalDone], Exited)
      else ([Dial, OpenStream] @ steps @ [CloseSend], Blocked))"
  using assms by (simp add: run_def)

lemma run_done_after_acks:
  assumes "SignalDone \<in> set (fst (run s sid q))"
  shows "(\<exists>e. SetError e \<in> set (fst (run s sid q))) \<or>
     (snd (ackReceiver (recvs s)) \<and>
      (\<exists>pre. fst (run s sid q) = pre @ [CloseSend, AwaitAcks, CloseConn, SignalDone]))"
proof -
  obtain steps e where l: "sendLoop s sid 1 q = (steps, e)"
    by (cases "sendLoop s sid 1 q")
  have nd: "SignalDone \<notin> set steps"
    using sendLoop_steps [of SignalDone s sid 1 q] l by auto
  show ?thesis
  proof (cases e)
    case Break
    with assms l nd show ?thesis
      by (auto simp: run_def split: option.splits if_splits)
  next
    case Return
    then obtain x where "SetError x \<in> set steps"
      using sendLoop_no_break [of s sid 1 q] l by auto
    with Return assms l show ?thesis
      by (auto simp: run_def split: option.splits)
  next
    case Starved
    with assms l nd show ?thesis
      by (auto simp: run_def split: option.splits)
  qed
qed

subsection \<open>Errors inside Run\<close>

lemma action_flushProgress [simp]: "action (snd (flushProgress r)) = action r"
  by (simp add: flushProgress_def split_beta Let_def)

lemma action_logWrite [simp]: "action (logWrite b r) = action r"
  by (simp add: logWrite_def Let_def split: writeListener.splits)

lemma action_logPrintf [simp]: "action (logPrintf t r) = action r"
  by (simp add: logPrintf_def)

lemma action_logHeader [simp]: "action (logHeader w r) = action r"
  by (simp add: logHeader_def Let_def)

lemma action_publish [simp]: "action (snd (publish e r)) = action r"
  by (simp add: publish_def split_beta)

lemma runCommands_errors:
  "fst (runCommands w i cmds r) = Returns (Some e) \<Longrightarrow>
   (\<exists>cmd \<in> set cmds. \<exists>ts x. split w cmd = (ts, Some x) \<and>
      e = Errorf ''failed to parse bazel command: '' x) \<or>
   (\<exists>j args. result (child w j args) = Some e)"
proof (induction cmds arbitrary: i r)
  case Nil
  then show ?case by simp
next
  case (Cons cmd cmds)
  show ?case
  proof (cases "bazelArgs (split w) cmd")
    case Panics
    with Cons.prems show ?thesis by simp
  next
    case (Returns ae)
    obtain args x where ae: "ae = (args, x)" by (cases ae)
    show ?thesis
    proof (cases x)
      case (Some y)
      with Returns ae have "\<exists>ts. split w cmd = (ts, Some y)"
        by (auto simp: bazelArgs_def split: prod.splits option.splits list.splits if_splits)
      moreover have "e = Errorf ''failed to parse bazel command: '' y"
        using Cons.prems Returns ae Some by simp
      ultimately show ?thesis by auto
    next
      case None
      obtain c r3 where cs: "commandStep w i args r = (c, r3)" by (cases "commandStep w i args r")
      obtain f r4 where fp: "flushProgress r3 = (f, r4)" by (cases "flushProgress r3")
      have c: "c = result (child w i args)"
        using cs by (simp add: commandStep_def runCommand_def Let_def split: if_splits)
      show ?thesis
      proof (cases "f \<noteq> None")
        case True
        with Cons.prems Returns ae None cs fp show ?thesis by simp
      next
        case False
        show ?thesis
        proof (cases "c \<noteq> None")
          case True
          with Cons.prems Returns ae None cs fp False c show ?thesis by auto
        next
          case cn: False
          with Cons.prems Returns ae None cs fp False
          have "fst (runCommands w (Suc i) cmds r4) = Returns (Some e)" by simp
          from Cons.IH [OF this] show ?thesis by auto
        qed
      qed
    qed
  qed
qed

lemma Run_loopStart_None: "loopStart w r0 = None \<Longrightarrow> fst (Run w r0) = Returns None"
  by (auto simp: loopStart_def Run_def Let_def split_beta split: if_splits)

lemma Run_loopStart_Some:
  assumes "loopStart w r0 = Some r6"
  shows "fst (Run w r0) = fst (runCommands w 0 (BazelCommands (action r0)) r6)"
    and "snd (Run w r0) = stopFlushingProgress (snd (runCommands w 0 (BazelCommands (action r0)) r6))"
proof -
  have a: "action r6 = action r0"
    using assms
    by (auto simp: loopStart_def Let_def split_beta startBackgroundProgressFlush_def
        split: if_splits)
  show "fst (Run w r0) = fst (runCommands w 0 (BazelCommands (action r0)) r6)"
    using assms a
    by (auto simp: loopStart_def Run_def Let_def split_beta split: if_splits)
  show "snd (Run w r0) = stopFlushingProgress (snd (runCommands w 0 (BazelCommands (action r0)) r6))"
    using assms a
    by (auto simp: loopStart_def Run_def Let_def split_beta split: if_splits)
qed

lemma runCommands_loopHead:
  "loopHead w i pre r = Some r' \<Longrightarrow>
   runCommands w i (pre @ rest) r = runCommands w (i + length pre) rest r'"
proof (induction pre arbitrary: i r)
  case Nil
  then show ?case by simp
next
  case (Cons cmd pre)
  from Cons.prems obtain args where a: "bazelArgs (split w) cmd = Returns (args, None)"
    by (auto split: outcome.splits prod.splits option.splits)
  let ?r3 = "snd (commandStep w i args r)"
  let ?r4 = "snd (flushProgress ?r3)"
  from Cons.prems a have ok: "fst (flushProgress ?r3) = None" "fst (commandStep w i args r) = None"
    and h: "loopHead w (Suc i) pre ?r4 = Some r'"
    by (auto simp: split_beta Let_def split: if_splits)
  from Cons.IH [OF h] a ok show ?case by (simp add: split_beta Let_def)
qed

text \<open>
  C8, as the code has it. Inside \<^verbatim>\<open>Run\<close>, an error that \<^verbatim>\<open>Publish\<close> returns for the
  started event, for the workspace status event, or through a progress flush that \<^verbatim>\<open>Run\<close>
  itself calls (the one after the started event, and the one after each command that the
  loop reaches, the commands before it having succeeded) makes \<^verbatim>\<open>Run\<close> return nil and not
  that error, also when the command itself failed. A non-nil error that \<^verbatim>\<open>Run\<close> returns
  is the error of the tokeniser on one of the action's commands, under the prefix
  \<^verbatim>\<open>failed to parse bazel command\<close>, or the error of a command's execution. The flushes
  that the write listener and the timer make while a command runs are not among these:
  their error is dropped where they are called.
\<close>

theorem Run_swallows_publish_errors:
  "(\<forall>e r. publish (startedEvent w (logHeader w r0)) (logHeader w r0) = (Some e, r) \<longrightarrow>
      fst (Run w r0) = Returns None) \<and>
   (\<forall>r2 e r. publish (startedEvent w (logHeader w r0)) (logHeader w r0) = (None, r2) \<longrightarrow>
      flushProgress r2 = (Some e, r) \<longrightarrow> fst (Run w r0) = Returns None) \<and>
   (\<forall>r2 r3 e r. publish (startedEvent w (logHeader w r0)) (logHeader w r0) = (None, r2) \<longrightarrow>
      flushProgress r2 = (None, r3) \<longrightarrow>
      publish (workspaceStatusEvent w r3) r3 = (Some e, r) \<longrightarrow> fst (Run w r0) = Returns None) \<and>
   (\<forall>r6 pre cmd post r args c r3 e r4. loopStart w r0 = Some r6 \<longrightarrow>
      BazelCommands (action r0) = pre @ cmd # post \<longrightarrow> loopHead w 0 pre r6 = Some r \<longrightarrow>
      bazelArgs (split w) cmd = Returns (args, None) \<longrightarrow>
      commandStep w (length pre) args r = (c, r3) \<longrightarrow> flushProgress r3 = (Some e, r4) \<longrightarrow>
      fst (Run w r0) = Returns None) \<and>
   (\<forall>e. fst (Run w r0) = Returns (Some e) \<longrightarrow>
      (\<exists>cmd \<in> set (BazelCommands (action r0)). \<exists>ts x. split w cmd = (ts, Some x) \<and>
         e = Errorf ''failed to parse bazel command: '' x) \<or>
      (\<exists>j args. result (child w j args) = Some e))"
proof (intro conjI allI impI)
  fix e r
  assume "publish (startedEvent w (logHeader w r0)) (logHeader w r0) = (Some e, r)"
  then show "fst (Run w r0) = Returns None" by (simp add: Run_def Let_def)
next
  fix r2 e r
  assume "publish (startedEvent w (logHeader w r0)) (logHeader w r0) = (None, r2)"
    and "flushProgress r2 = (Some e, r)"
  then show "fst (Run w r0) = Returns None" by (simp add: Run_def Let_def)
next
  fix r2 r3 e r
  assume "publish (startedEvent w (logHeader w r0)) (logHeader w r0) = (None, r2)"
    and "flushProgress r2 = (None, r3)"
    and "publish (workspaceStatusEvent w r3) r3 = (Some e, r)"
  then show "fst (Run w r0) = Returns None" by (simp add: Run_def Let_def)
next
  fix r6 pre cmd post r args c r3 e r4
  assume s: "loopStart w r0 = Some r6" and cmds: "BazelCommands (action r0) = pre @ cmd # post"
    and h: "loopHead w 0 pre r6 = Some r" and a: "bazelArgs (split w) cmd = Returns (args, None)"
    and c: "commandStep w (length pre) args r = (c, r3)" and f: "flushProgress r3 = (Some e, r4)"
  have "fst (Run w r0) = fst (runCommands w 0 (pre @ cmd # post) r6)"
    using Run_loopStart_Some(1) [OF s] cmds by simp
  also have "\<dots> = fst (runCommands w (length pre) (cmd # post) r)"
    using runCommands_loopHead [OF h, of "cmd # post"] by simp
  also have "\<dots> = Returns None" using a c f by simp
  finally show "fst (Run w r0) = Returns None" .
next
  fix e
  assume ret: "fst (Run w r0) = Returns (Some e)"
  let ?r1 = "logHeader w r0"
  obtain e1 r2 where p1: "publish (startedEvent w ?r1) ?r1 = (e1, r2)"
    by (cases "publish (startedEvent w ?r1) ?r1")
  obtain e2 r3 where p2: "flushProgress r2 = (e2, r3)" by (cases "flushProgress r2")
  obtain e3 r4 where p3: "publish (workspaceStatusEvent w r3) r3 = (e3, r4)"
    by (cases "publish (workspaceStatusEvent w r3) r3")
  have n1: "e1 = None" using ret p1 by (cases e1) (simp_all add: Run_def Let_def)
  have n2: "e2 = None" using ret p1 p2 n1 by (cases e2) (simp_all add: Run_def Let_def)
  have n3: "e3 = None" using ret p1 p2 p3 n1 n2 by (cases e3) (simp_all add: Run_def Let_def)
  let ?r6 = "startBackgroundProgressFlush (r4\<lparr>log := (log r4)\<lparr>writeListener := ThresholdFlush\<rparr>\<rparr>)"
  have act: "action ?r6 = action r0"
  proof -
    have "action r2 = action r0" using p1 action_publish [of "startedEvent w ?r1" ?r1] by simp
    moreover have "action r3 = action r2" using p2 action_flushProgress [of r2] by simp
    moreover have "action r4 = action r3"
      using p3 action_publish [of "workspaceStatusEvent w r3" r3] by simp
    ultimately show ?thesis by (simp add: startBackgroundProgressFlush_def)
  qed
  have "fst (runCommands w 0 (BazelCommands (action ?r6)) ?r6) = Returns (Some e)"
    using ret p1 p2 p3 n1 n2 n3 by (simp add: Run_def Let_def split_beta)
  from runCommands_errors [OF this] act
  show "(\<exists>cmd \<in> set (BazelCommands (action r0)). \<exists>ts x. split w cmd = (ts, Some x) \<and>
         e = Errorf ''failed to parse bazel command: '' x) \<or>
      (\<exists>j args. result (child w j args) = Some e)"
    by simp
qed

subsection \<open>Runs with a healthy publisher\<close>

lemma carriesOn_refl: "healthy (bep r) \<Longrightarrow> carriesOn r r"
  by (auto simp: carriesOn_def intro: exI [of _ "[]"])

lemma carriesOn_trans: "carriesOn a b \<Longrightarrow> carriesOn b c \<Longrightarrow> carriesOn a c"
proof -
  assume ab: "carriesOn a b" and bc: "carriesOn b c"
  from ab obtain xs where xs: "events (bep b) = events (bep a) @ map Some xs"
    by (auto simp: carriesOn_def)
  from bc obtain ys where ys: "events (bep c) = events (bep b) @ map Some ys"
    by (auto simp: carriesOn_def)
  have "events (bep c) = events (bep a) @ map Some (xs @ ys)" using xs ys by simp
  then have "\<exists>evs. events (bep c) = events (bep a) @ map Some evs" by blast
  with ab bc show ?thesis by (simp add: carriesOn_def)
qed

lemma publish_healthy:
  assumes "healthy (bep r)"
  shows "fst (publish e r) = None" and "carriesOn r (snd (publish e r))"
    and "events (bep (snd (publish e r))) = events (bep r) @ [Some e]"
proof -
  note P = Publish_healthy [OF assms, of e]
  show "fst (publish e r) = None" using P(1) by (simp add: publish_def split_beta)
  show ev: "events (bep (snd (publish e r))) = events (bep r) @ [Some e]"
    using P(3) by (simp add: publish_def split_beta)
  have "\<exists>evs. events (bep (snd (publish e r))) = events (bep r) @ map Some evs"
    using ev by (intro exI [of _ "[e]"]) simp
  then show "carriesOn r (snd (publish e r))"
    using P(2,4) by (simp add: carriesOn_def publish_def split_beta)
qed

lemma flushProgress_healthy:
  assumes "healthy (bep r)"
  shows "fst (flushProgress r) = None" and "carriesOn r (snd (flushProgress r))"
proof -
  obtain buf l where c: "Consume (log r) = (buf, l)" by (cases "Consume (log r)")
  let ?e = "progressEvent (progressCount r) (sliceBytes l buf)"
  note P = Publish_healthy [OF assms, of ?e]
  show "fst (flushProgress r) = None"
    using c P(1) by (simp add: flushProgress_def Let_def split_beta)
  show "carriesOn r (snd (flushProgress r))"
  proof (cases "snd buf = 0")
    case True
    with c assms show ?thesis
      by (auto simp: flushProgress_def carriesOn_def Let_def intro: exI [of _ "[]"])
  next
    case False
    have "\<exists>evs. events (bep r) @ [Some ?e] = events (bep r) @ map Some evs"
      by (rule exI [of _ "[?e]"]) simp
    with False c P show ?thesis
      by (simp add: flushProgress_def carriesOn_def Let_def split_beta)
  qed
qed

lemma logWrite_healthy:
  assumes "healthy (bep r)"
  shows "carriesOn r (logWrite b r)"
proof -
  let ?r1 = "r\<lparr>log := snd (Write b (log r))\<rparr>"
  have h1: "healthy (bep ?r1)" using assms by simp
  have c1: "carriesOn r ?r1" using assms by (auto simp: carriesOn_def intro: exI [of _ "[]"])
  have c2: "carriesOn ?r1 (snd (flushProgress ?r1))" by (rule flushProgress_healthy(2) [OF h1])
  show ?thesis
    using c1 carriesOn_trans [OF c1 c2]
    by (simp add: logWrite_def Let_def split: writeListener.splits)
qed

lemma logPrintf_healthy: "healthy (bep r) \<Longrightarrow> carriesOn r (logPrintf t r)"
  by (simp add: logPrintf_def logWrite_healthy)

lemma carriesOn_healthy: "carriesOn r r' \<Longrightarrow> healthy (bep r')"
  by (simp add: carriesOn_def)

lemma whileRunning_healthy: "healthy (bep r) \<Longrightarrow> carriesOn r (whileRunning hs r)"
proof (induction hs arbitrary: r)
  case Nil
  then show ?case by (simp add: carriesOn_refl)
next
  case (Cons h hs)
  show ?case
  proof (cases h)
    case (Output b)
    have c: "carriesOn r (logWrite b r)" by (rule logWrite_healthy [OF Cons.prems])
    from carriesOn_trans [OF c Cons.IH [OF carriesOn_healthy [OF c]]] Output
    show ?thesis by simp
  next
    case Tick
    have c: "carriesOn r (snd (flushProgress r))" by (rule flushProgress_healthy(2) [OF Cons.prems])
    from carriesOn_trans [OF c Cons.IH [OF carriesOn_healthy [OF c]]] Tick
    show ?thesis by simp
  qed
qed

lemma printCommandLine_healthy: "healthy (bep r) \<Longrightarrow> carriesOn r (printCommandLine w args r)"
  by (simp add: printCommandLine_def Let_def logPrintf_healthy)

lemma commandStep_healthy:
  assumes "healthy (bep r)"
  shows "fst (commandStep w i args r) = result (child w i args)"
    and "carriesOn r (snd (commandStep w i args r))"
proof -
  show "fst (commandStep w i args r) = result (child w i args)"
    by (simp add: commandStep_def runCommand_def Let_def)
  let ?r1 = "printCommandLine w args r"
  let ?r2 = "whileRunning (happenings (child w i args)) ?r1"
  have c1: "carriesOn r ?r1" by (rule printCommandLine_healthy [OF assms])
  have c2: "carriesOn ?r1 ?r2" by (rule whileRunning_healthy [OF carriesOn_healthy [OF c1]])
  have c12: "carriesOn r ?r2" by (rule carriesOn_trans [OF c1 c2])
  have c3: "carriesOn ?r2 (logPrintf t ?r2)" for t
    by (rule logPrintf_healthy [OF carriesOn_healthy [OF c12]])
  show "carriesOn r (snd (commandStep w i args r))"
    using c12 carriesOn_trans [OF c12 c3]
    by (simp add: commandStep_def runCommand_def Let_def)
qed

lemma runCommands_healthy:
  "healthy (bep r) \<Longrightarrow> carriesOn r (snd (runCommands w i cmds r))"
proof (induction cmds arbitrary: i r)
  case Nil
  then show ?case by (simp add: carriesOn_refl)
next
  case (Cons cmd cmds)
  show ?case
  proof (cases "bazelArgs (split w) cmd")
    case Panics
    with Cons.prems show ?thesis by (simp add: carriesOn_refl)
  next
    case (Returns ae)
    obtain args x where ae: "ae = (args, x)" by (cases ae)
    show ?thesis
    proof (cases x)
      case (Some y)
      with Returns ae Cons.prems show ?thesis by (simp add: carriesOn_refl)
    next
      case None
      let ?r3 = "snd (commandStep w i args r)"
      let ?r4 = "snd (flushProgress ?r3)"
      have c3: "carriesOn r ?r3" by (rule commandStep_healthy(2) [OF Cons.prems])
      have c4: "carriesOn ?r3 ?r4" by (rule flushProgress_healthy(2) [OF carriesOn_healthy [OF c3]])
      have c: "carriesOn r ?r4" by (rule carriesOn_trans [OF c3 c4])
      have f: "fst (flushProgress ?r3) = None"
        by (rule flushProgress_healthy(1) [OF carriesOn_healthy [OF c3]])
      from carriesOn_trans [OF c Cons.IH [OF carriesOn_healthy [OF c]]] c f Returns ae None
      show ?thesis by (simp add: split_beta Let_def)
    qed
  qed
qed

lemma runCommands_no_panic:
  "\<forall>cmd \<in> set cmds. split w cmd \<noteq> ([], None) \<Longrightarrow> fst (runCommands w i cmds r) \<noteq> Panics"
proof (induction cmds arbitrary: i r)
  case Nil
  then show ?case by simp
next
  case (Cons cmd cmds)
  have np: "bazelArgs (split w) cmd \<noteq> Panics"
    using Cons.prems
    by (auto simp: bazelArgs_def split: prod.splits option.splits list.splits)
  then obtain args x where r: "bazelArgs (split w) cmd = Returns (args, x)"
    by (cases "bazelArgs (split w) cmd") auto
  have rest: "\<forall>c \<in> set cmds. split w c \<noteq> ([], None)" using Cons.prems by simp
  show ?case
    using r Cons.IH [OF rest]
    by (cases x) (simp_all add: split_beta Let_def)
qed

text \<open>The first failing command decides what the loop returns.\<close>

lemma runCommands_first_failure:
  assumes "healthy (bep r)"
    and "\<forall>j < length pre. \<exists>args. bazelArgs (split w) (pre ! j) = Returns (args, None) \<and>
           result (child w (i + j) args) = None"
    and "bazelArgs (split w) cmd = Returns (args, None)"
    and "result (child w (i + length pre) args) = Some e"
  shows "fst (runCommands w i (pre @ cmd # post) r) = Returns (Some e)"
  using assms
proof (induction pre arbitrary: i r)
  case Nil
  have f: "fst (flushProgress (snd (commandStep w i args r))) = None"
    by (rule flushProgress_healthy(1) [OF carriesOn_healthy [OF commandStep_healthy(2) [OF Nil(1)]]])
  have c: "fst (commandStep w i args r) = Some e"
    using commandStep_healthy(1) [OF Nil(1), of w i args] Nil(4) by simp
  show ?case using Nil(3) f c by (simp add: split_beta Let_def)
next
  case (Cons p pre)
  from Cons.prems(2) [rule_format, of 0] obtain pargs where
    pa: "bazelArgs (split w) p = Returns (pargs, None)" and pr: "result (child w i pargs) = None"
    by auto
  let ?r3 = "snd (commandStep w i pargs r)"
  let ?r4 = "snd (flushProgress ?r3)"
  have c3: "carriesOn r ?r3" by (rule commandStep_healthy(2) [OF Cons.prems(1)])
  have h4: "healthy (bep ?r4)"
    by (rule carriesOn_healthy [OF flushProgress_healthy(2) [OF carriesOn_healthy [OF c3]]])
  have f: "fst (flushProgress ?r3) = None"
    by (rule flushProgress_healthy(1) [OF carriesOn_healthy [OF c3]])
  have c: "fst (commandStep w i pargs r) = None"
    using commandStep_healthy(1) [OF Cons.prems(1), of w i pargs] pr by simp
  have a2: "\<forall>j < length pre. \<exists>args. bazelArgs (split w) (pre ! j) = Returns (args, None) \<and>
           result (child w (Suc i + j) args) = None"
  proof (intro allI impI)
    fix j assume "j < length pre"
    then show "\<exists>args. bazelArgs (split w) (pre ! j) = Returns (args, None) \<and>
           result (child w (Suc i + j) args) = None"
      using Cons.prems(2) [rule_format, of "Suc j"] by simp
  qed
  have a4: "result (child w (Suc i + length pre) args) = Some e"
    using Cons.prems(4) by simp
  from Cons.IH [OF h4 a2 Cons.prems(3) a4]
  show ?case using pa f c by (simp add: split_beta Let_def)
qed

lemma flusherTask_healthy:
  "healthy (bep r) \<Longrightarrow> carriesOn r (snd (snd (flusherTask ws r n)))"
proof (induction ws arbitrary: r n)
  case Nil
  then show ?case by (simp add: carriesOn_refl)
next
  case (Cons x ws)
  show ?case
  proof (cases x)
    case StopReceived
    with Cons show ?thesis by simp
  next
    case TimerFired
    have c: "carriesOn r (snd (flushProgress r))" by (rule flushProgress_healthy(2) [OF Cons.prems])
    from carriesOn_trans [OF c Cons.IH [OF carriesOn_healthy [OF c]]] TimerFired
    show ?thesis by simp
  qed
qed

lemma carriesOn_update:
  "carriesOn r r' \<Longrightarrow> carriesOn r (r'\<lparr>log := l\<rparr>)" "carriesOn r r' \<Longrightarrow> carriesOn r (r'\<lparr>stopSent := b\<rparr>)"
  by (simp_all add: carriesOn_def)

text \<open>With a healthy publisher \<^verbatim>\<open>Run\<close> reaches its loop.\<close>

lemma Run_healthy_loop:
  assumes "healthy (bep r0)"
  shows "\<exists>r6. carriesOn r0 r6 \<and> fst (Run w r0) = fst (runCommands w 0 (BazelCommands (action r0)) r6)
     \<and> snd (Run w r0) = stopFlushingProgress (snd (runCommands w 0 (BazelCommands (action r0)) r6))"
proof -
  let ?r1 = "logHeader w r0"
  have c1: "carriesOn r0 ?r1"
  proof -
    let ?a = "logPrintf (''Action:          '' @ Name (action r0)) r0"
    let ?b = "logPrintf (''Triggered by:    '' @ triggerEvent (flagValues w) @ '' to branch ''
                            @ quoteGo w (triggerBranch (flagValues w))) ?a"
    let ?c = "logPrintf (''Invocation ID:   '' @ InvocationId (streamID (bep ?b))) ?b"
    let ?d = "logPrintf (''Invocation URL:  ''
                      @ invocationURL (besResultsURL (flagValues w)) (InvocationId (streamID (bep ?c)))) ?c"
    have a: "carriesOn r0 ?a" by (rule logPrintf_healthy [OF assms])
    have b: "carriesOn r0 ?b"
      by (rule carriesOn_trans [OF a logPrintf_healthy [OF carriesOn_healthy [OF a]]])
    have c: "carriesOn r0 ?c"
      by (rule carriesOn_trans [OF b logPrintf_healthy [OF carriesOn_healthy [OF b]]])
    have d: "carriesOn r0 ?d"
      by (rule carriesOn_trans [OF c logPrintf_healthy [OF carriesOn_healthy [OF c]]])
    then show ?thesis by (simp add: logHeader_def Let_def)
  qed
  let ?r2 = "snd (publish (startedEvent w ?r1) ?r1)"
  have h1: "healthy (bep ?r1)" by (rule carriesOn_healthy [OF c1])
  have e1: "fst (publish (startedEvent w ?r1) ?r1) = None" by (rule publish_healthy(1) [OF h1])
  have c2: "carriesOn r0 ?r2" by (rule carriesOn_trans [OF c1 publish_healthy(2) [OF h1]])
  have h2: "healthy (bep ?r2)" by (rule carriesOn_healthy [OF c2])
  let ?r3 = "snd (flushProgress ?r2)"
  have e2: "fst (flushProgress ?r2) = None" by (rule flushProgress_healthy(1) [OF h2])
  have c3: "carriesOn r0 ?r3" by (rule carriesOn_trans [OF c2 flushProgress_healthy(2) [OF h2]])
  have h3: "healthy (bep ?r3)" by (rule carriesOn_healthy [OF c3])
  let ?r4 = "snd (publish (workspaceStatusEvent w ?r3) ?r3)"
  have e3: "fst (publish (workspaceStatusEvent w ?r3) ?r3) = None" by (rule publish_healthy(1) [OF h3])
  have c4: "carriesOn r0 ?r4" by (rule carriesOn_trans [OF c3 publish_healthy(2) [OF h3]])
  let ?r6 = "startBackgroundProgressFlush (?r4\<lparr>log := (log ?r4)\<lparr>writeListener := ThresholdFlush\<rparr>\<rparr>)"
  have c6: "carriesOn r0 ?r6"
    using c4 by (simp add: startBackgroundProgressFlush_def carriesOn_def)
  have a6: "action ?r6 = action r0" using c6 by (simp add: carriesOn_def)
  have "fst (Run w r0) = fst (runCommands w 0 (BazelCommands (action r0)) ?r6)"
    using e1 e2 e3 a6 by (simp add: Run_def Let_def split_beta)
  moreover have "snd (Run w r0) = stopFlushingProgress (snd (runCommands w 0 (BazelCommands (action r0)) ?r6))"
    using e1 e2 e3 a6 by (simp add: Run_def Let_def split_beta)
  ultimately show ?thesis using c6 by blast
qed

lemma Run_healthy: "healthy (bep r0) \<Longrightarrow> carriesOn r0 (snd (Run w r0))"
proof -
  assume h: "healthy (bep r0)"
  from Run_healthy_loop [OF h, of w] obtain r6 where
    c6: "carriesOn r0 r6"
    and s: "snd (Run w r0) = stopFlushingProgress (snd (runCommands w 0 (BazelCommands (action r0)) r6))"
    by blast
  have "carriesOn r0 (snd (runCommands w 0 (BazelCommands (action r0)) r6))"
    by (rule carriesOn_trans [OF c6 runCommands_healthy [OF carriesOn_healthy [OF c6]]])
  then show ?thesis using s by (simp add: stopFlushingProgress_def carriesOn_def)
qed

lemma Run_no_panic:
  "healthy (bep r0) \<Longrightarrow> \<forall>cmd \<in> set (BazelCommands (action r0)). split w cmd \<noteq> ([], None) \<Longrightarrow>
   fst (Run w r0) \<noteq> Panics"
  using Run_healthy_loop [of r0 w] runCommands_no_panic [of "BazelCommands (action r0)" w 0]
  by metis

lemma Run_first_failure:
  assumes "healthy (bep r0)"
    and "BazelCommands (action r0) = pre @ cmd # post"
    and "\<forall>j < length pre. \<exists>args. bazelArgs (split w) (pre ! j) = Returns (args, None) \<and>
           result (child w j args) = None"
    and "bazelArgs (split w) cmd = Returns (args, None)"
    and "result (child w (length pre) args) = Some e"
  shows "fst (Run w r0) = Returns (Some e)"
proof -
  from Run_healthy_loop [OF assms(1), of w] obtain r6 where
    c6: "carriesOn r0 r6"
    and f: "fst (Run w r0) = fst (runCommands w 0 (BazelCommands (action r0)) r6)"
    by blast
  have "fst (runCommands w 0 (pre @ cmd # post) r6) = Returns (Some e)"
    using runCommands_first_failure [OF carriesOn_healthy [OF c6], of pre w 0 cmd args e post]
      assms(3,4,5) by simp
  with f assms(2) show ?thesis by simp
qed

lemma runTriggered_healthy:
  assumes "healthy (bep r0)" and "doneSignal (bep r0)" and "fst (Run w r0) = Returns res"
  shows "fst (runTriggered w t r0) = None"
    and "\<exists>evs. events (bep (snd (runTriggered w t r0))) =
           events (bep r0) @ map Some evs
           @ [Some (buildFinishedEvent w (reportedCode res)), Some (buildToolLogsEvent w), None]"
    and "action (snd (runTriggered w t r0)) = action r0"
proof -
  let ?r1 = "snd (Run w r0)"
  have run: "Run w r0 = (Returns res, ?r1)" using assms(3) by (cases "Run w r0") simp
  have c1: "carriesOn r0 ?r1" by (rule Run_healthy [OF assms(1)])
  let ?r2 = "(case res of None \<Rightarrow> ?r1
     | Some e \<Rightarrow> logPrintf (fmtNoArgs w (esc @ ''[31m'' @ newline @ ''Action failed: ''
                                                 @ errorText e @ esc @ ''[0m'')) ?r1)"
  have c2: "carriesOn r0 ?r2"
  proof (cases res)
    case None
    with c1 show ?thesis by simp
  next
    case (Some e)
    with carriesOn_trans [OF c1 logPrintf_healthy [OF carriesOn_healthy [OF c1]]]
    show ?thesis by simp
  qed
  let ?r3 = "snd (snd (flusherTask (replicate t TimerFired) ?r2 0))"
  have c3: "carriesOn r0 ?r3"
    by (rule carriesOn_trans [OF c2 flusherTask_healthy [OF carriesOn_healthy [OF c2]]])
  let ?r4 = "snd (flushProgress ?r3)"
  have c4: "carriesOn r0 ?r4"
    by (rule carriesOn_trans [OF c3 flushProgress_healthy(2) [OF carriesOn_healthy [OF c3]]])
  have h4: "healthy (bep ?r4)" by (rule carriesOn_healthy [OF c4])
  let ?r5 = "snd (publish (buildFinishedEvent w (reportedCode res)) ?r4)"
  have c5: "carriesOn ?r4 ?r5" by (rule publish_healthy(2) [OF h4])
  have ev5: "events (bep ?r5) = events (bep ?r4) @ [Some (buildFinishedEvent w (reportedCode res))]"
    by (rule publish_healthy(3) [OF h4])
  have h5: "healthy (bep ?r5)" by (rule carriesOn_healthy [OF c5])
  let ?r6 = "snd (publish (buildToolLogsEvent w) ?r5)"
  have c6: "carriesOn ?r5 ?r6" by (rule publish_healthy(2) [OF h5])
  have ev6: "events (bep ?r6) = events (bep ?r5) @ [Some (buildToolLogsEvent w)]"
    by (rule publish_healthy(3) [OF h5])
  have h6: "healthy (bep ?r6)" by (rule carriesOn_healthy [OF c6])
  have d6: "doneSignal (bep ?r6)"
    using c4 c5 c6 assms(2) by (simp add: carriesOn_def)
  have a6: "action ?r6 = action r0"
    using c4 c5 c6 by (simp add: carriesOn_def)
  have h6': "healthy ((bep ?r6)\<lparr>events := events (bep ?r6) @ [None]\<rparr>)"
    using h6 by (simp add: healthy_def)
  have w6: "fst (Wait (bep ?r6)) = Some None"
    "events (snd (Wait (bep ?r6))) = events (bep ?r6) @ [None]"
    using observe_healthy [OF h6'] d6 by (simp_all add: Wait_def Let_def)
  have unfold: "runTriggered w t r0 = (None, ?r6\<lparr>bep := snd (Wait (bep ?r6))\<rparr>)"
    using assms(3) w6(1)
    by (cases res) (simp_all add: runTriggered_def reportedCode_def Let_def split_beta)
  show "fst (runTriggered w t r0) = None" using unfold by simp
  show "action (snd (runTriggered w t r0)) = action r0" using unfold a6 by simp
  from c4 obtain evs where "events (bep ?r4) = events (bep r0) @ map Some evs"
    by (auto simp: carriesOn_def)
  then show "\<exists>evs. events (bep (snd (runTriggered w t r0))) =
           events (bep r0) @ map Some evs
           @ [Some (buildFinishedEvent w (reportedCode res)), Some (buildToolLogsEvent w), None]"
    using unfold ev5 ev6 w6(2) by (intro exI [of _ evs]) simp
qed

lemma runActions_exit_0:
  assumes "\<forall>i. \<exists>a b. uuids v i = (Some a, Some b)"
    and "\<forall>i. list_all (\<lambda>l. l = None) (backgroundLatches v i)" and "\<forall>i. backgroundDone v i"
  shows "\<forall>i. \<forall>a \<in> set as. \<forall>cmd \<in> set (BazelCommands a). split (actionEnv v i) cmd \<noteq> ([], None) \<Longrightarrow>
     fst (runActions v host user i as) = Exit 0"
proof (induction as arbitrary: i)
  case Nil
  then show ?case by simp
next
  case (Cons a as)
  have rest: "\<forall>i. \<forall>a \<in> set as. \<forall>cmd \<in> set (BazelCommands a). split (actionEnv v i) cmd \<noteq> ([], None)"
    using Cons.prems by simp
  show ?case
  proof (cases "matchesAnyTrigger a (triggerEvent (flagsGiven v)) (triggerBranch (flagsGiven v))")
    case False
    with Cons.IH [OF rest, of "Suc i"] show ?thesis by simp
  next
    case True
    from assms(1) obtain u1 u2 where u: "uuids v i = (Some u1, Some u2)" by blast
    let ?p = "newBuildEventPublisher \<lparr>InvocationId = u1, BuildId = u2\<rparr>
                       (backgroundLatches v i) (backgroundDone v i)"
    let ?r = "\<lparr>action = a, log = newInvocationLog, bep = ?p, progressCount = 0,
                      username = user, hostname = host, stopSent = False\<rparr>"
    let ?w = "(actionEnv v i)\<lparr>flagValues := flagsGiven v\<rparr>"
    have h: "healthy (bep ?r)" using assms(2) by (simp add: healthy_def newBuildEventPublisher_def)
    have d: "doneSignal (bep ?r)" using assms(3) by (simp add: newBuildEventPublisher_def)
    have sp: "\<forall>cmd \<in> set (BazelCommands (action ?r)). split ?w cmd \<noteq> ([], None)"
      using Cons.prems by simp
    have "fst (Run ?w ?r) \<noteq> Panics" by (rule Run_no_panic [OF h sp])
    then obtain res where res: "fst (Run ?w ?r) = Returns res" by (cases "fst (Run ?w ?r)") auto
    have "fst (runTriggered ?w (lateTicks v i) ?r) = None"
      by (rule runTriggered_healthy(1) [OF h d res])
    with True u Cons.IH [OF rest, of "Suc i"] show ?thesis
      by (simp add: split_beta Let_def)
  qed
qed

lemma main_exit_0:
  assumes "cloneResult v = None" and "snd (configResult v) = None"
    and "\<forall>i. \<exists>a b. uuids v i = (Some a, Some b)"
    and "\<forall>i. list_all (\<lambda>l. l = None) (backgroundLatches v i)" and "\<forall>i. backgroundDone v i"
    and "\<forall>i. \<forall>a \<in> set (Actions (fst (configResult v))). \<forall>cmd \<in> set (BazelCommands a).
           split (actionEnv v i) cmd \<noteq> ([], None)"
  shows "fst (main v) = Exit 0"
  using assms(1,2) runActions_exit_0 [OF assms(3-5), of "Actions (fst (configResult v))"] assms(6)
  by (cases "configResult v") (simp add: main_def RunAllActions_def Let_def)

subsection \<open>The exit status\<close>

lemma reportedCode_exit: "n \<noteq> noExitCode \<Longrightarrow> reportedCode (Some (ExitError n)) = n"
  by (simp add: reportedCode_def getExitCode_def)

text \<open>
  C2, as the code has it. When the publisher of a triggered action is healthy, the commands
  before one tokenise and succeed, and the child of that one exits with a non-zero numeric
  code \<open>n\<close>, then \<^verbatim>\<open>Run\<close> returns that exit error, the driver publishes a finished event
  with code \<open>n\<close> and the tool logs event, sends the sentinel, and goes on to the next action.
  And when the clone and the configuration succeed, the identifiers are made, no error is
  ever latched in a publisher, every publisher task signals, and no command of the
  configuration tokenises to nothing, the process ends with the exit status 0, whatever
  the commands exited with.
\<close>

theorem failing_command_reported_in_stream:
  "(healthy (bep r0) \<longrightarrow> doneSignal (bep r0) \<longrightarrow> BazelCommands (action r0) = pre @ cmd # post \<longrightarrow>
      (\<forall>j < length pre. \<exists>a. bazelArgs (split w) (pre ! j) = Returns (a, None) \<and>
         result (child w j a) = None) \<longrightarrow>
      bazelArgs (split w) cmd = Returns (args, None) \<longrightarrow>
      result (child w (length pre) args) = Some (ExitError n) \<longrightarrow> n \<noteq> 0 \<longrightarrow> n \<noteq> noExitCode \<longrightarrow>
      fst (Run w r0) = Returns (Some (ExitError n)) \<and>
      fst (runTriggered w t r0) = None \<and>
      (\<exists>evs. events (bep (snd (runTriggered w t r0))) =
         events (bep r0) @ map Some evs
         @ [Some (buildFinishedEvent w n), Some (buildToolLogsEvent w), None]) \<and>
      Payload (buildFinishedEvent w n) = Finished (word_of_int n) (finishTimeMillis w)) \<and>
   (cloneResult v = None \<longrightarrow> snd (configResult v) = None \<longrightarrow>
      (\<forall>i. \<exists>a b. uuids v i = (Some a, Some b)) \<longrightarrow>
      (\<forall>i. list_all (\<lambda>l. l = None) (backgroundLatches v i)) \<longrightarrow> (\<forall>i. backgroundDone v i) \<longrightarrow>
      (\<forall>i. \<forall>a \<in> set (Actions (fst (configResult v))). \<forall>cmd \<in> set (BazelCommands a).
         split (actionEnv v i) cmd \<noteq> ([], None)) \<longrightarrow>
      fst (main v) = Exit 0)"
proof (intro conjI impI)
  assume h: "healthy (bep r0)" and d: "doneSignal (bep r0)"
    and cmds: "BazelCommands (action r0) = pre @ cmd # post"
    and pre: "\<forall>j < length pre. \<exists>a. bazelArgs (split w) (pre ! j) = Returns (a, None) \<and>
         result (child w j a) = None"
    and a: "bazelArgs (split w) cmd = Returns (args, None)"
    and c: "result (child w (length pre) args) = Some (ExitError n)"
    and n: "n \<noteq> noExitCode"
  show run: "fst (Run w r0) = Returns (Some (ExitError n))"
    by (rule Run_first_failure [OF h cmds pre a c])
  show "fst (runTriggered w t r0) = None"
    by (rule runTriggered_healthy(1) [OF h d run])
  show "\<exists>evs. events (bep (snd (runTriggered w t r0))) =
         events (bep r0) @ map Some evs
         @ [Some (buildFinishedEvent w n), Some (buildToolLogsEvent w), None]"
    using runTriggered_healthy(2) [OF h d run, of t] reportedCode_exit [OF n] by simp
  show "Payload (buildFinishedEvent w n) = Finished (word_of_int n) (finishTimeMillis w)"
    by (simp add: buildFinishedEvent_def)
next
  assume "cloneResult v = None" and "snd (configResult v) = None"
    and "\<forall>i. \<exists>a b. uuids v i = (Some a, Some b)"
    and "\<forall>i. list_all (\<lambda>l. l = None) (backgroundLatches v i)" and "\<forall>i. backgroundDone v i"
    and "\<forall>i. \<forall>a \<in> set (Actions (fst (configResult v))). \<forall>cmd \<in> set (BazelCommands a).
         split (actionEnv v i) cmd \<noteq> ([], None)"
  then show "fst (main v) = Exit 0" by (rule main_exit_0)
qed

lemma failingWorld_ok:
  "cloneResult failingWorld = None" "snd (configResult failingWorld) = None"
  "\<forall>i. \<exists>a b. uuids failingWorld i = (Some a, Some b)"
  "\<forall>i. list_all (\<lambda>l. l = None) (backgroundLatches failingWorld i)" "\<forall>i. backgroundDone failingWorld i"
  "\<forall>i. \<forall>a \<in> set (Actions (fst (configResult failingWorld))). \<forall>cmd \<in> set (BazelCommands a).
         split (actionEnv failingWorld i) cmd \<noteq> ([], None)"
  by (simp_all add: failingWorld_def failingEnv_def testAction_def blankSplitter_def)

lemma testCommand_args:
  "bazelArgs (split failingEnv) ''bazel build //:nonexistent'' = Returns ([''build'', ''//:nonexistent''], None)"
  by (simp add: failingEnv_def bazelArgs_def blankSplitter_def)

theorem failing_command_reported_in_stream_witness:
  "healthy (bep (freshRunner [])) \<and> doneSignal (bep (freshRunner [])) \<and>
   BazelCommands (action (freshRunner [])) = [] @ ''bazel build //:nonexistent'' # [] \<and>
   result (child failingEnv (length ([] :: string list)) [''build'', ''//:nonexistent'']) = Some (ExitError 1) \<and>
   fst (Run failingEnv (freshRunner [])) = Returns (Some (ExitError 1)) \<and>
   fst (runTriggered failingEnv 1 (freshRunner [])) = None \<and>
   (\<exists>evs. events (bep (snd (runTriggered failingEnv 1 (freshRunner [])))) =
      map Some evs @ [Some (buildFinishedEvent failingEnv 1), Some (buildToolLogsEvent failingEnv), None]) \<and>
   Payload (buildFinishedEvent failingEnv 1) = Finished 1 2000 \<and>
   fst (main failingWorld) = Exit 0"
proof -
  have h: "healthy (bep (freshRunner []))"
    by (simp add: freshRunner_def healthy_def newBuildEventPublisher_def)
  have d: "doneSignal (bep (freshRunner []))"
    by (simp add: freshRunner_def newBuildEventPublisher_def)
  have cmds: "BazelCommands (action (freshRunner [])) = [] @ ''bazel build //:nonexistent'' # []"
    by (simp add: freshRunner_def testAction_def)
  have c: "result (child failingEnv (length ([] :: string list)) [''build'', ''//:nonexistent'']) = Some (ExitError 1)"
    by (simp add: failingEnv_def failingChild_def)
  have ev0: "events (bep (freshRunner [])) = []"
    by (simp add: freshRunner_def newBuildEventPublisher_def)
  have n: "(1::int) \<noteq> noExitCode" by (simp add: noExitCode_def)
  have f: "finishTimeMillis failingEnv = 2000" by (simp add: failingEnv_def)
  show ?thesis
    using failing_command_reported_in_stream
      [of "freshRunner []" "[]" "''bazel build //:nonexistent''" "[]" failingEnv
        "[''build'', ''//:nonexistent'']" 1 1 failingWorld]
      h d cmds c n ev0 f testCommand_args failingWorld_ok
    by simp
qed

text \<open>
  The claim that the process ends with the exit code of the failing command fails in the
  scenario of the failing command: the action is triggered, its command's child exits with
  1, no error is latched, and the process ends with 0.
\<close>

theorem failing_command_exit_status_counterexample:
  "Actions (fst (configResult failingWorld)) = [testAction] \<and>
   matchesAnyTrigger testAction (triggerEvent (flagsGiven failingWorld))
     (triggerBranch (flagsGiven failingWorld)) \<and>
   bazelArgs (split failingEnv) ''bazel build //:nonexistent'' =
     Returns ([''build'', ''//:nonexistent''], None) \<and>
   result (child (actionEnv failingWorld 0) 0 [''build'', ''//:nonexistent'']) = Some (ExitError 1) \<and>
   backgroundLatches failingWorld 0 = [] \<and> backgroundDone failingWorld 0 \<and>
   fst (main failingWorld) = Exit 0 \<and> fst (main failingWorld) \<noteq> Exit 1"
proof -
  have m: "fst (main failingWorld) = Exit 0"
    by (rule main_exit_0 [OF failingWorld_ok])
  have t: "matchesAnyTrigger testAction (triggerEvent (flagsGiven failingWorld))
     (triggerBranch (flagsGiven failingWorld))"
    by (simp add: failingWorld_def pushFlags_def testAction_def pushMain_def matchesAnyTrigger_def
        pushEventName_def)
  have r: "result (child (actionEnv failingWorld 0) 0 [''build'', ''//:nonexistent'']) = Some (ExitError 1)"
    by (simp add: failingWorld_def failingEnv_def failingChild_def)
  show ?thesis
    using m t r testCommand_args by (simp add: failingWorld_def)
qed

subsection \<open>Runs with a latched error\<close>

lemma bufLen_BufferWrite: "bufLen (BufferWrite p l) = bufLen l + length p"
  by (auto simp: BufferWrite_def Let_def bufStorage_def split: option.splits)

lemma writeListener_BufferWrite: "writeListener (BufferWrite p l) = writeListener l"
  by (auto simp: BufferWrite_def Let_def split: option.splits)

text \<open>A write that leaves the log below the threshold flushes nothing.\<close>

lemma logWrite_below:
  assumes "bufLen (log r) + length b < progressFlushThresholdBytes"
  shows "bep (logWrite b r) = bep r" and "bufLen (log (logWrite b r)) = bufLen (log r) + length b"
    and "writeListener (log (logWrite b r)) = writeListener (log r)"
    and "progressCount (logWrite b r) = progressCount r"
  using assms
  by (simp_all add: logWrite_def Write_def Let_def BufferLen_def bufLen_BufferWrite
      writeListener_BufferWrite split: writeListener.splits)

text \<open>
  A write that takes the log to the threshold while the publisher task has latched an
  error: the listener's flush empties the log, \<^verbatim>\<open>Publish\<close> refuses the event, and the
  refusal goes nowhere.
\<close>

lemma logWrite_refused:
  assumes "writeListener (log r) = ThresholdFlush"
    and "progressFlushThresholdBytes \<le> bufLen (log r) + length b"
    and "err (bep r) = None" and "latches (bep r) = Some e # ls"
  shows "err (bep (logWrite b r)) = Some e" and "bufLen (log (logWrite b r)) = 0"
    and "events (bep (logWrite b r)) = events (bep r)"
    and "progressCount (logWrite b r) = progressCount r + 1"
proof -
  let ?r1 = "r\<lparr>log := snd (Write b (log r))\<rparr>"
  have n: "bufLen (log ?r1) = bufLen (log r) + length b"
    by (simp add: Write_def bufLen_BufferWrite)
  have l: "writeListener (log ?r1) = ThresholdFlush"
    using assms(1) by (simp add: Write_def writeListener_BufferWrite)
  have w: "logWrite b r = snd (flushProgress ?r1)"
    using assms(2) n l by (simp add: logWrite_def Let_def BufferLen_def)
  have "0 < bufLen (log r) + length b"
    using assms(2) unfolding progressFlushThresholdBytes_def by linarith
  hence pos: "bufLen (log ?r1) \<noteq> 0"
    unfolding n by simp
  have f: "snd (flushProgress ?r1) =
      ?r1\<lparr>log := BufferReset (log ?r1), progressCount := progressCount r + 1,
           bep := (bep r)\<lparr>err := Some e, latches := ls\<rparr>\<rparr>"
    using pos assms(3,4)
    by (simp add: flushProgress_def Consume_def BufferBytes_def Publish_def observe_def Let_def)
  show "err (bep (logWrite b r)) = Some e" by (simp add: w f)
  show "bufLen (log (logWrite b r)) = 0" by (simp add: w f BufferReset_def)
  show "events (bep (logWrite b r)) = events (bep r)" by (simp add: w f)
  show "progressCount (logWrite b r) = progressCount r + 1" by (simp add: w f)
qed

lemma flushProgress_empty:
  assumes "bufLen (log r) = 0"
  shows "fst (flushProgress r) = None" and "bep (snd (flushProgress r)) = bep r"
    and "progressCount (snd (flushProgress r)) = progressCount r"
  using assms by (simp_all add: flushProgress_def Consume_def BufferBytes_def Let_def)

lemma loopStart_child: "loopStart (w\<lparr>child := c\<rparr>) r = loopStart w r"
  by (simp add: loopStart_def logHeader_def startedEvent_def workspaceStatusEvent_def
      split_beta Let_def)

lemma printCommandLine_child:
  "printCommandLine (w\<lparr>child := c\<rparr>) args r = printCommandLine w args r"
  by (simp add: printCommandLine_def)

lemma exitLine_length:
  "length ((esc @ ''[90m(command exited with code '' @ showInt 1 @ '')'' @ esc @ ''[0m'') @ newline) = 38"
  by code_simp

text \<open>
  The runner whose publisher task latches an error after the third event, when \<^verbatim>\<open>Run\<close>
  reaches its loop and has printed the command line.
\<close>

lemma latched_start:
  "loopStart failingEnv (freshRunner [None, None, None, Some (LibError ''stream closed'')]) \<noteq> None"
  "writeListener (log (printCommandLine failingEnv [''build'', ''//:nonexistent'']
     (the (loopStart failingEnv (freshRunner [None, None, None, Some (LibError ''stream closed'')]))))) = ThresholdFlush"
  "bufLen (log (printCommandLine failingEnv [''build'', ''//:nonexistent'']
     (the (loopStart failingEnv (freshRunner [None, None, None, Some (LibError ''stream closed'')]))))) = 51"
  "err (bep (printCommandLine failingEnv [''build'', ''//:nonexistent'']
     (the (loopStart failingEnv (freshRunner [None, None, None, Some (LibError ''stream closed'')]))))) = None"
  "latches (bep (printCommandLine failingEnv [''build'', ''//:nonexistent'']
     (the (loopStart failingEnv (freshRunner [None, None, None, Some (LibError ''stream closed'')]))))) =
     [Some (LibError ''stream closed'')]"
  "map (map_option BuildEvent.Id) (events (bep (printCommandLine failingEnv [''build'', ''//:nonexistent'']
     (the (loopStart failingEnv (freshRunner [None, None, None, Some (LibError ''stream closed'')])))))) =
     [Some StartedId, Some (ProgressId 0), Some WorkspaceStatusId]"
  "progressCount (printCommandLine failingEnv [''build'', ''//:nonexistent'']
     (the (loopStart failingEnv (freshRunner [None, None, None, Some (LibError ''stream closed'')])))) = 1"
  by code_simp+

text \<open>
  A command that prints \<open>n\<close> bytes and exits with 1, where the command line and the output
  stay below the threshold and the line about the exit code reaches it: the listener's
  flush meets the latched error, and \<^verbatim>\<open>Run\<close>'s own flush finds the log empty.
\<close>

lemma listener_flush_error_ignored:
  assumes "n + 51 < 1000" and "1000 \<le> n + 89"
  shows "fst (Run (chattyEnv n) (freshRunner [None, None, None, Some (LibError ''stream closed'')])) =
      Returns (Some (ExitError 1))"
    and "err (bep (snd (Run (chattyEnv n)
           (freshRunner [None, None, None, Some (LibError ''stream closed'')])))) =
      Some (LibError ''stream closed'')"
    and "map (map_option BuildEvent.Id) (events (bep (snd (Run (chattyEnv n)
           (freshRunner [None, None, None, Some (LibError ''stream closed'')]))))) =
      [Some StartedId, Some (ProgressId 0), Some WorkspaceStatusId]"
    and "progressCount (snd (Run (chattyEnv n)
           (freshRunner [None, None, None, Some (LibError ''stream closed'')]))) = 2"
proof -
  let ?E = "LibError ''stream closed''"
  let ?r0 = "freshRunner [None, None, None, Some ?E]"
  let ?w = "chattyEnv n"
  let ?args = "[''build'', ''//:nonexistent'']"
  let ?r6 = "the (loopStart failingEnv ?r0)"
  have ls: "loopStart ?w ?r0 = Some ?r6"
    using latched_start(1) by (simp add: chattyEnv_def loopStart_child)
  let ?r1 = "printCommandLine failingEnv ?args ?r6"
  have p: "printCommandLine ?w ?args ?r6 = ?r1"
    by (simp add: chattyEnv_def printCommandLine_child)
  let ?out = "replicate n (CHR ''x'')"
  let ?r2 = "logWrite ?out ?r1"
  have below: "bufLen (log ?r1) + length ?out < progressFlushThresholdBytes"
    using assms(1) latched_start(3) by (simp add: progressFlushThresholdBytes_def)
  note r2 = logWrite_below [OF below]
  let ?line = "esc @ ''[90m(command exited with code '' @ showInt 1 @ '')'' @ esc @ ''[0m''"
  let ?r3 = "logPrintf ?line ?r2"
  have l2: "writeListener (log ?r2) = ThresholdFlush" using r2(3) latched_start(2) by simp
  have reach: "progressFlushThresholdBytes \<le> bufLen (log ?r2) + length (?line @ newline)"
    using assms(2) r2(2) latched_start(3) exitLine_length
    by (simp add: progressFlushThresholdBytes_def)
  have e2: "err (bep ?r2) = None" using r2(1) latched_start(4) by simp
  have la2: "latches (bep ?r2) = Some ?E # []" using r2(1) latched_start(5) by simp
  note r3 = logWrite_refused [OF l2 reach e2 la2, folded logPrintf_def]
  have step: "commandStep ?w 0 ?args ?r6 = (Some (ExitError 1), ?r3)"
    by (simp add: commandStep_def p runCommand_def getExitCode_def noExitCode_def Let_def)
      (simp add: chattyEnv_def chattyChild_def)
  note fl = flushProgress_empty [OF r3(2)]
  have a: "bazelArgs (split ?w) ''bazel build //:nonexistent'' = Returns (?args, None)"
    by (simp add: chattyEnv_def failingEnv_def bazelArgs_def blankSplitter_def)
  have cmds: "BazelCommands (action ?r0) = [''bazel build //:nonexistent'']"
    by (simp add: freshRunner_def testAction_def)
  have rc: "runCommands ?w 0 [''bazel build //:nonexistent''] ?r6 =
      (Returns (Some (ExitError 1)), snd (flushProgress ?r3))"
    using a step fl(1) by (simp add: split_beta Let_def)
  show "fst (Run ?w ?r0) = Returns (Some (ExitError 1))"
    using Run_loopStart_Some(1) [OF ls] cmds rc by simp
  show "err (bep (snd (Run ?w ?r0))) = Some ?E"
    using Run_loopStart_Some(2) [OF ls] cmds rc fl(2) r3(1)
    by (simp add: stopFlushingProgress_def)
  show "map (map_option BuildEvent.Id) (events (bep (snd (Run ?w ?r0)))) =
      [Some StartedId, Some (ProgressId 0), Some WorkspaceStatusId]"
    using Run_loopStart_Some(2) [OF ls] cmds rc fl(2) r3(3) r2(1) latched_start(6)
    by (simp add: stopFlushingProgress_def)
  show "progressCount (snd (Run ?w ?r0)) = 2"
    using Run_loopStart_Some(2) [OF ls] cmds rc fl(3) r3(4) r2(4) latched_start(7)
    by (simp add: stopFlushingProgress_def)
qed

theorem Run_swallows_publish_errors_witness:
  "fst (Run failingEnv (freshRunner [Some (LibError ''stream closed'')])) = Returns None \<and>
   fst (Run failingEnv (freshRunner [None, Some (LibError ''stream closed'')])) = Returns None \<and>
   fst (Run failingEnv (freshRunner [None, None, Some (LibError ''stream closed'')])) = Returns None \<and>
   result (child failingEnv 0 [''build'', ''//:nonexistent'']) = Some (ExitError 1) \<and>
   loopStart failingEnv (freshRunner [None, None, None, Some (LibError ''stream closed'')]) \<noteq> None \<and>
   fst (Run failingEnv (freshRunner [None, None, None, Some (LibError ''stream closed'')])) =
     Returns None \<and>
   fst (Run failingEnv (freshRunner [])) = Returns (Some (ExitError 1))"
proof -
  let ?E = "LibError ''stream closed''"
  let ?refused = "Some (Errorf ''cannot publish event due to previous error: '' ?E)"
  let ?args = "[''build'', ''//:nonexistent'']"
  note T = Run_swallows_publish_errors
  \<comment> \<open>the started event is refused\<close>
  let ?h1 = "logHeader failingEnv (freshRunner [Some ?E])"
  have a1: "fst (publish (startedEvent failingEnv ?h1) ?h1) = ?refused" by code_simp
  have r1: "fst (Run failingEnv (freshRunner [Some ?E])) = Returns None"
    using T [of failingEnv "freshRunner [Some ?E]"] a1
      surjective_pairing [of "publish (startedEvent failingEnv ?h1) ?h1"]
    by metis
  \<comment> \<open>the flush after the started event is refused\<close>
  let ?h2 = "logHeader failingEnv (freshRunner [None, Some ?E])"
  let ?p2 = "publish (startedEvent failingEnv ?h2) ?h2"
  have a2: "fst ?p2 = None" by code_simp
  have b2: "fst (flushProgress (snd ?p2)) = ?refused" by code_simp
  have r2: "fst (Run failingEnv (freshRunner [None, Some ?E])) = Returns None"
    using T [of failingEnv "freshRunner [None, Some ?E]"] a2 b2
      surjective_pairing [of ?p2] surjective_pairing [of "flushProgress (snd ?p2)"]
    by metis
  \<comment> \<open>the workspace status event is refused\<close>
  let ?h3 = "logHeader failingEnv (freshRunner [None, None, Some ?E])"
  let ?p3 = "publish (startedEvent failingEnv ?h3) ?h3"
  let ?f3 = "flushProgress (snd ?p3)"
  let ?w3 = "publish (workspaceStatusEvent failingEnv (snd ?f3)) (snd ?f3)"
  have a3: "fst ?p3 = None" by code_simp
  have b3: "fst ?f3 = None" by code_simp
  have c3: "fst ?w3 = ?refused" by code_simp
  have r3: "fst (Run failingEnv (freshRunner [None, None, Some ?E])) = Returns None"
    using T [of failingEnv "freshRunner [None, None, Some ?E]"] a3 b3 c3
      surjective_pairing [of ?p3] surjective_pairing [of ?f3] surjective_pairing [of ?w3]
    by metis
  \<comment> \<open>the flush after a failing command is refused\<close>
  let ?r04 = "freshRunner [None, None, None, Some ?E]"
  let ?r6 = "the (loopStart failingEnv ?r04)"
  let ?c4 = "commandStep failingEnv (length ([] :: string list)) ?args ?r6"
  have s4: "loopStart failingEnv ?r04 = Some ?r6" using latched_start(1) by simp
  have cmds4: "BazelCommands (action ?r04) = [] @ ''bazel build //:nonexistent'' # []"
    by (simp add: freshRunner_def testAction_def)
  have h4: "loopHead failingEnv 0 [] ?r6 = Some ?r6" by simp
  have a4: "bazelArgs (split failingEnv) ''bazel build //:nonexistent'' = Returns (?args, None)"
    by (simp add: failingEnv_def bazelArgs_def blankSplitter_def)
  have b4: "fst (flushProgress (snd (commandStep failingEnv 0 ?args ?r6))) = ?refused"
    by code_simp
  have cs4: "?c4 = (fst ?c4, snd ?c4)" by simp
  have f4: "flushProgress (snd ?c4) =
      (Some (Errorf ''cannot publish event due to previous error: '' ?E), snd (flushProgress (snd ?c4)))"
    using b4 by (simp add: prod_eq_iff)
  have c4: "result (child failingEnv 0 ?args) = Some (ExitError 1)"
    by (simp add: failingEnv_def failingChild_def)
  have r4: "fst (Run failingEnv ?r04) = Returns None"
    using T [of failingEnv ?r04, THEN conjunct2, THEN conjunct2, THEN conjunct2, THEN conjunct1,
        rule_format, OF s4 cmds4 h4 a4 cs4 f4] .
  \<comment> \<open>with no error latched the command's error comes back\<close>
  have h: "healthy (bep (freshRunner []))"
    by (simp add: freshRunner_def healthy_def newBuildEventPublisher_def)
  have cmds: "BazelCommands (action (freshRunner [])) = [] @ ''bazel build //:nonexistent'' # []"
    by (simp add: freshRunner_def testAction_def)
  have r5: "fst (Run failingEnv (freshRunner [])) = Returns (Some (ExitError 1))"
    by (rule Run_first_failure [OF h cmds _ a4]) (simp_all add: c4)
  show ?thesis using r1 r2 r3 r4 r5 c4 latched_start(1) by simp
qed

text \<open>
  The claim that every failure of \<^verbatim>\<open>Publish\<close> from a progress flush inside \<^verbatim>\<open>Run\<close> makes
  \<^verbatim>\<open>Run\<close> return nil fails for the flush of the write listener. The publisher task
  latches an error after the workspace status event; the command prints 940 bytes and exits
  with 1. The line about the exit code takes the log to the threshold, the listener
  flushes, and \<^verbatim>\<open>Publish\<close> refuses the progress event: the error is latched in the
  publisher, the progress counter has moved to 2 and no second progress event is on the
  channel. The log is empty when \<^verbatim>\<open>Run\<close> flushes, so \<^verbatim>\<open>Run\<close> sees no failure and
  returns the exit error of the command.
\<close>

theorem Run_listener_flush_counterexample:
  "result (child (chattyEnv 940) 0 [''build'', ''//:nonexistent'']) = Some (ExitError 1) \<and>
   err (bep (freshRunner [None, None, None, Some (LibError ''stream closed'')])) = None \<and>
   err (bep (snd (Run (chattyEnv 940)
     (freshRunner [None, None, None, Some (LibError ''stream closed'')])))) =
     Some (LibError ''stream closed'') \<and>
   map (map_option BuildEvent.Id) (events (bep (snd (Run (chattyEnv 940)
     (freshRunner [None, None, None, Some (LibError ''stream closed'')]))))) =
     [Some StartedId, Some (ProgressId 0), Some WorkspaceStatusId] \<and>
   progressCount (snd (Run (chattyEnv 940)
     (freshRunner [None, None, None, Some (LibError ''stream closed'')]))) = 2 \<and>
   fst (Run (chattyEnv 940) (freshRunner [None, None, None, Some (LibError ''stream closed'')])) =
     Returns (Some (ExitError 1)) \<and>
   fst (Run (chattyEnv 940) (freshRunner [None, None, None, Some (LibError ''stream closed'')])) \<noteq>
     Returns None"
  using listener_flush_error_ignored [of 940]
  by (simp add: chattyEnv_def chattyChild_def freshRunner_def newBuildEventPublisher_def)

end
